theory Spec2Isabelle
  imports Main
begin

section \<open>Data model (types/book.ts)\<close>

text \<open>
  A JavaScript string is a sequence of UTF-16 code units and \<open>.length\<close> counts
  them. A code unit is modelled by its number, a string by the list of its units, so
  that \<open>length\<close> is \<open>.length\<close>. \<open>js\<close> embeds an ASCII literal.
\<close>

type_synonym jsstring = "nat list"

definition js :: "string \<Rightarrow> jsstring" where
  "js s = map of_char s"

text \<open>
  \<open>ContentLayer\<close>: the paragraphs, the index of the first paragraph within the
  chapter and the optional image (a blob URL); \<open>None\<close> is \<open>undefined\<close>.
  Indices are JavaScript numbers used as counters; they are modelled as \<open>nat\<close>.
\<close>

record ContentLayer =
  paragraphs :: "jsstring list"
  startIndex :: nat
  image :: "jsstring option"

text \<open>The truthiness test \<open>image ? 1 : 0\<close>: \<open>undefined\<close> and the empty string are falsy.\<close>

definition truthy :: "jsstring option \<Rightarrow> bool" where
  "truthy s = (case s of None \<Rightarrow> False | Some t \<Rightarrow> t \<noteq> [])"

definition MAX_LAYER_LENGTH :: nat where
  "MAX_LAYER_LENGTH = 15000"

text \<open>The character count of a paragraph list, \<open>paragraphs.reduce((sum, p) => sum + p.length, 0)\<close>.\<close>

definition totalChars :: "jsstring list \<Rightarrow> nat" where
  "totalChars ps = foldl (\<lambda>sum p. sum + length p) 0 ps"

section \<open>TxtAdapter.chunkParagraphs\<close>

text \<open>
  The \<open>for (const para of paragraphs)\<close> loop, with its four mutable variables
  \<open>layers\<close>, \<open>currentChunk\<close>, \<open>currentChunkSize\<close> and \<open>startIndex\<close> passed
  as state.
\<close>

fun txtChunkLoop ::
  "jsstring list \<Rightarrow> ContentLayer list \<Rightarrow> jsstring list \<Rightarrow> nat \<Rightarrow> nat
    \<Rightarrow> ContentLayer list \<times> jsstring list \<times> nat \<times> nat" where
  "txtChunkLoop [] layers currentChunk currentChunkSize start =
     (layers, currentChunk, currentChunkSize, start)"
| "txtChunkLoop (para # rest) layers currentChunk currentChunkSize start =
     (if currentChunkSize + length para > MAX_LAYER_LENGTH \<and> length currentChunk > 0
      then txtChunkLoop rest
             (layers @ [\<lparr>paragraphs = currentChunk, startIndex = start, image = None\<rparr>])
             ([] @ [para]) (0 + length para) (start + length currentChunk)
      else txtChunkLoop rest layers (currentChunk @ [para])
             (currentChunkSize + length para) start)"

definition chunkParagraphs :: "jsstring list \<Rightarrow> ContentLayer list" where
  "chunkParagraphs ps =
     (case txtChunkLoop ps [] [] 0 0 of
        (layers, currentChunk, currentChunkSize, start) \<Rightarrow>
          if length currentChunk > 0
          then layers @ [\<lparr>paragraphs = currentChunk, startIndex = start, image = None\<rparr>]
          else layers)"

section \<open>EpubAdapter.addParagraphsWithChunking\<close>

text \<open>
  The copy of the adapter that counts an image as one index position
  (field \<open>startIndex\<close>). The loop carries \<open>layers\<close>, \<open>currentChunk\<close>,
  \<open>currentChunkSize\<close>, \<open>currentStartIndex\<close> and \<open>isFirstChunk\<close>.
\<close>

fun epubChunkLoop ::
  "jsstring list \<Rightarrow> jsstring option \<Rightarrow> ContentLayer list \<Rightarrow> jsstring list \<Rightarrow> nat \<Rightarrow> nat
    \<Rightarrow> bool \<Rightarrow> ContentLayer list \<times> jsstring list \<times> nat \<times> nat \<times> bool" where
  "epubChunkLoop [] img layers currentChunk currentChunkSize currentStartIndex isFirstChunk =
     (layers, currentChunk, currentChunkSize, currentStartIndex, isFirstChunk)"
| "epubChunkLoop (para # rest) img layers currentChunk currentChunkSize currentStartIndex
       isFirstChunk =
     (if currentChunkSize + length para > MAX_LAYER_LENGTH \<and> length currentChunk > 0
      then epubChunkLoop rest img
             (layers @ [\<lparr>paragraphs = currentChunk, startIndex = currentStartIndex,
                         image = (if isFirstChunk then img else None)\<rparr>])
             ([] @ [para]) (0 + length para)
             (currentStartIndex + length currentChunk
                + (if isFirstChunk \<and> truthy img then 1 else 0))
             False
      else epubChunkLoop rest img layers (currentChunk @ [para])
             (currentChunkSize + length para) currentStartIndex isFirstChunk)"

text \<open>Returns the extended \<open>layers\<close> array and the next free index.\<close>

definition addParagraphsWithChunking ::
  "ContentLayer list \<Rightarrow> jsstring list \<Rightarrow> nat \<Rightarrow> jsstring option \<Rightarrow> ContentLayer list \<times> nat" where
  "addParagraphsWithChunking layers ps start img =
     (if totalChars ps \<le> MAX_LAYER_LENGTH
      then (layers @ [\<lparr>paragraphs = ps, startIndex = start, image = img\<rparr>],
            start + length ps + (if truthy img then 1 else 0))
      else (case epubChunkLoop ps img layers [] 0 start True of
              (layers', currentChunk, currentChunkSize, currentStartIndex, isFirstChunk) \<Rightarrow>
                if length currentChunk > 0
                then (layers' @ [\<lparr>paragraphs = currentChunk, startIndex = currentStartIndex,
                                    image = (if isFirstChunk then img else None)\<rparr>],
                      currentStartIndex + length currentChunk
                        + (if isFirstChunk \<and> truthy img then 1 else 0))
                else (layers', currentStartIndex)))"

section \<open>Properties of layer sequences\<close>

text \<open>
  The size bound of one layer: the paragraphs together have at most
  \<open>MAX_LAYER_LENGTH\<close> characters, or the layer is one paragraph that is itself longer.
\<close>

definition sizeOk :: "jsstring list \<Rightarrow> bool" where
  "sizeOk ps = (totalChars ps \<le> MAX_LAYER_LENGTH
      \<or> (case ps of [p] \<Rightarrow> length p > MAX_LAYER_LENGTH | _ \<Rightarrow> False))"

definition nextIndex :: "ContentLayer \<Rightarrow> nat" where
  "nextIndex l = startIndex l + length (paragraphs l) + (if truthy (image l) then 1 else 0)"

fun indexContinuity :: "ContentLayer list \<Rightarrow> bool" where
  "indexContinuity (l # m # rest) = (startIndex m = nextIndex l \<and> indexContinuity (m # rest))"
| "indexContinuity _ = True"

fun chainFrom :: "nat \<Rightarrow> ContentLayer list \<Rightarrow> bool" where
  "chainFrom s [] = True"
| "chainFrom s (l # ls) = (startIndex l = s \<and> chainFrom (nextIndex l) ls)"

fun chainEnd :: "nat \<Rightarrow> ContentLayer list \<Rightarrow> nat" where
  "chainEnd s [] = s"
| "chainEnd s (l # ls) = chainEnd (nextIndex l) ls"

section \<open>JavaScript string operations\<close>

text \<open>\<open>s.startsWith(p)\<close>.\<close>

definition startsWith :: "jsstring \<Rightarrow> jsstring \<Rightarrow> bool" where
  "startsWith s p = (take (length p) s = p)"

text \<open>
  \<open>s.trim()\<close> removes white space and line terminators at both ends: TAB, LF, VT, FF,
  CR, SPACE, NBSP, U+1680, U+2000..U+200A, U+2028, U+2029, U+202F, U+205F, U+3000, U+FEFF.
\<close>

definition isWhiteSpace :: "nat \<Rightarrow> bool" where
  "isWhiteSpace c =
     (c \<in> {9, 10, 11, 12, 13, 32, 160, 5760, 8232, 8233, 8239, 8287, 12288, 65279}
      \<or> (8192 \<le> c \<and> c \<le> 8202))"

definition trim :: "jsstring \<Rightarrow> jsstring" where
  "trim s = rev (dropWhile isWhiteSpace (rev (dropWhile isWhiteSpace s)))"

text \<open>
  \<open>s.toLowerCase()\<close> on the letters A to Z. The results are only compared with the
  ASCII tag names \<open>p\<close>, \<open>img\<close> and \<open>h1\<close> to \<open>h6\<close>, and no code unit outside
  A to Z is mapped to one of their letters.
\<close>

definition toLowerCase :: "jsstring \<Rightarrow> jsstring" where
  "toLowerCase s = map (\<lambda>c. if 65 \<le> c \<and> c \<le> 90 then c + 32 else c) s"

text \<open>\<open>s.split(sep)\<close> for a separator of one code unit; the result is never empty.\<close>

fun split :: "nat \<Rightarrow> jsstring \<Rightarrow> jsstring list" where
  "split sep [] = [[]]"
| "split sep (c # cs) =
     (if c = sep then [] # split sep cs
      else (case split sep cs of [] \<Rightarrow> [[c]] | w # ws \<Rightarrow> (c # w) # ws))"

text \<open>\<open>parts.join(sep)\<close>.\<close>

fun join :: "jsstring \<Rightarrow> jsstring list \<Rightarrow> jsstring" where
  "join sep [] = []"
| "join sep [x] = x"
| "join sep (x # y # rest) = x @ sep @ join sep (y # rest)"

text \<open>\<open>s.lastIndexOf(c)\<close> for one code unit: the last position of \<open>c\<close>, or -1.\<close>

definition lastIndexOf :: "jsstring \<Rightarrow> nat \<Rightarrow> int" where
  "lastIndexOf s c =
     (if c \<in> set s then int (length s) - 1 - int (length (takeWhile (\<lambda>x. x \<noteq> c) (rev s)))
      else - 1)"

text \<open>\<open>s.substring(0, e)\<close>: a negative end counts as 0, an end beyond the string as its length.\<close>

definition substring0 :: "jsstring \<Rightarrow> int \<Rightarrow> jsstring" where
  "substring0 s e = take (nat e) s"

text \<open>The decimal digits of a natural number; the example inputs below use them.\<close>

fun showNat :: "nat \<Rightarrow> jsstring" where
  "showNat n = (if n < 10 then [48 + n] else showNat (n div 10) @ [48 + n mod 10])"

declare showNat.simps [simp del]

section \<open>Errors\<close>

text \<open>
  A thrown value: an \<open>Error\<close> object with its message, or any other value with the
  text \<open>String(error)\<close> gives for it. \<open>errorText\<close> is
  \<open>error instanceof Error ? error.message : String(error)\<close>.
\<close>

datatype thrown = Error jsstring | Thrown jsstring

definition errorText :: "thrown \<Rightarrow> jsstring" where
  "errorText e = (case e of Error m \<Rightarrow> m | Thrown s \<Rightarrow> s)"

section \<open>Books, chapters and the platform\<close>

datatype Format = Epub | Txt

text \<open>
  \<open>UnifiedChapter\<close>; \<open>ch_href\<close> is \<open>None\<close> where the property is absent.
  A chapter id is an index into \<open>book.chapters\<close> and is modelled as \<open>nat\<close>; for
  any other number \<open>book.chapters[chapterId]\<close> is undefined, as it is for an index
  beyond the array.
\<close>

record UnifiedChapter =
  ch_id :: nat
  title :: jsstring
  ch_layers :: "ContentLayer list"
  isLoaded :: bool
  ch_href :: "jsstring option"

text \<open>
  \<open>UnifiedBook\<close>, with the fields the adapters and the cache read: the format, the
  chapters and the raw bytes. The metadata fields (id, title, author, cover, addTime)
  are read by none of the functions below.
\<close>

record UnifiedBook =
  format :: Format
  chapters :: "UnifiedChapter list"
  rawData :: "nat list"

text \<open>
  The document tree as \<open>traverseDOM\<close> reads it: an element has a tag name, a
  \<open>src\<close> attribute (\<open>None\<close> when \<open>getAttribute\<close> gives \<open>null\<close>), its text
  content and its child elements.
\<close>

datatype Element =
  Element (tagName: jsstring) (srcAttr: "jsstring option") (textContent: jsstring)
    (children: "Element list")

text \<open>A parsed section document; \<open>body\<close> is \<open>None\<close> when \<open>document.body\<close> is null.\<close>

record Document =
  body :: "Element option"

text \<open>What \<open>archive.request(path, 'blob')\<close> resolves to: a Blob, or something else.\<close>

datatype archiveData = Blob nat | NotBlob

text \<open>
  A spine section of epub.js: its canonical path, its href, and what
  \<open>await section.load(...)\<close> does: it rejects, or leaves \<open>section.document\<close>
  set (\<open>Some\<close>) or unset (\<open>None\<close>).
\<close>

record Section =
  canonical :: "jsstring option"
  sec_href :: "jsstring option"
  load :: "thrown + Document option"

text \<open>
  An opened EPUB container: \<open>spine.get\<close> by href (\<open>Inl\<close>) or by position
  (\<open>Inr\<close>), which may throw or find no section, and \<open>archive.request\<close>, which
  may reject.
\<close>

record EpubBook =
  spineGet :: "jsstring + nat \<Rightarrow> thrown + Section option"
  request :: "jsstring \<Rightarrow> thrown + archiveData"

text \<open>
  The platform and library calls of the adapters: the three \<open>TextDecoder\<close> uses of
  \<open>decodeText\<close> (the strict ones may throw, \<open>None\<close>); the text a template literal
  prints for a number (decimal digits for an integer below \<open>10^21\<close>, exponent
  notation from there on); the opened container, \<open>ePub(rawData)\<close> after
  \<open>await epubBook.ready\<close>; and the identifier that \<open>URL.createObjectURL\<close> puts
  after \<open>blob:\<close> for a Blob. The \<open>rawData\<close> of a book are the bytes that
  \<open>parse\<close> has opened in the same way before it built the book, and epub.js does
  not reject \<open>ready\<close>, so opening is a function from the bytes to the container.
\<close>

record Platform =
  utf8Fatal :: "nat list \<Rightarrow> jsstring option"
  gbk :: "nat list \<Rightarrow> jsstring option"
  utf8 :: "nat list \<Rightarrow> jsstring"
  numberToString :: "nat \<Rightarrow> jsstring"
  ePub :: "nat list \<Rightarrow> EpubBook"
  blobId :: "nat \<Rightarrow> jsstring"

text \<open>
  The message of the error that \<open>loadChapter\<close> throws for a chapter that does not
  exist: U+7AE0 U+8282, a space, the chapter id as the template literal prints it, a
  space, U+4E0D U+5B58 U+5728.
\<close>

definition notFoundMessage :: "Platform \<Rightarrow> nat \<Rightarrow> jsstring" where
  "notFoundMessage pf chapterId =
     [31456, 33410, 32] @ numberToString pf chapterId @ [32, 19981, 23384, 22312]"

definition createObjectURL :: "Platform \<Rightarrow> nat \<Rightarrow> jsstring" where
  "createObjectURL pf b = js ''blob:'' @ blobId pf b"

section \<open>EpubAdapter: the tree walk (copy with \<open>startIndex\<close>)\<close>

text \<open>
  The state of the walk: the \<open>layers\<close> and \<open>currentParagraphs\<close> arrays, which
  every recursive call mutates, and the running \<open>globalIndex\<close>.
\<close>

record Walk =
  wLayers :: "ContentLayer list"
  currentParagraphs :: "jsstring list"
  globalIndex :: nat

text \<open>\<open>const text = child.textContent?.trim(); if (text) currentParagraphs.push(text)\<close>.\<close>

definition pushText :: "jsstring \<Rightarrow> Walk \<Rightarrow> Walk" where
  "pushText content w =
     (let text = trim content
      in if text \<noteq> [] then w\<lparr>currentParagraphs := currentParagraphs w @ [text]\<rparr> else w)"

text \<open>The test \<open>/^h[1-6]$/\<close>.\<close>

definition isHeadingTag :: "jsstring \<Rightarrow> bool" where
  "isHeadingTag tag = (case tag of [h, d] \<Rightarrow> h = 104 \<and> 49 \<le> d \<and> d \<le> 54 | _ \<Rightarrow> False)"

text \<open>The loop over \<open>srcParts\<close> that pops on \<open>..\<close> and skips \<open>.\<close> and empty parts.\<close>

fun resolveParts :: "jsstring list \<Rightarrow> jsstring list \<Rightarrow> jsstring list" where
  "resolveParts parts [] = parts"
| "resolveParts parts (part # rest) =
     (if part = js ''..'' then resolveParts (butlast parts) rest
      else if part \<noteq> js ''.'' \<and> part \<noteq> [] then resolveParts (parts @ [part]) rest
      else resolveParts parts rest)"

text \<open>
  The path resolution at the start of the \<open>try\<close> block. \<open>basePath\<close> is
  \<open>section.canonical || section.href\<close>; it is only dereferenced for a relative
  \<open>src\<close>, where an undefined \<open>basePath\<close> is a TypeError.
\<close>

definition basePath :: "Section \<Rightarrow> jsstring option" where
  "basePath sec = (if truthy (canonical sec) then canonical sec else sec_href sec)"

definition resolveImagePath :: "Section \<Rightarrow> jsstring \<Rightarrow> thrown + jsstring" where
  "resolveImagePath sec src =
     (if startsWith src (js ''http://'') \<or> startsWith src (js ''https://'')
      then Inl (Error (js ''External images not supported''))
      else if startsWith src (js ''/'') then Inr src
      else (case basePath sec of
              None \<Rightarrow> Inl (Error (js ''Cannot read properties of undefined''))
            | Some bp \<Rightarrow>
                (let sectionDir = substring0 bp (lastIndexOf bp 47);
                     parts = filter (\<lambda>p. p \<noteq> []) (split 47 sectionDir);
                     srcParts = split 47 src
                 in Inr (js ''/'' @ join (js ''/'') (resolveParts parts srcParts)))))"

text \<open>
  The part of the \<open>try\<close> block that can throw: resolve the path, request the data,
  check that it is a Blob, create the blob URL.
\<close>

definition fetchImage :: "Platform \<Rightarrow> EpubBook \<Rightarrow> Section \<Rightarrow> jsstring \<Rightarrow> thrown + jsstring" where
  "fetchImage pf epubBook sec src =
     (case resolveImagePath sec src of
        Inl e \<Rightarrow> Inl e
      | Inr internalPath \<Rightarrow>
          (case request epubBook internalPath of
             Inl e \<Rightarrow> Inl e
           | Inr NotBlob \<Rightarrow> Inl (Error (js ''Image data is not a Blob''))
           | Inr (Blob b) \<Rightarrow> Inr (createObjectURL pf b)))"

text \<open>
  The \<open>img\<close> branch for a truthy \<open>src\<close>: the \<open>catch\<close> only logs, so a failure
  leaves the state as it is; on success the pending paragraphs are flushed with the image,
  or an image-only layer is pushed.
\<close>

definition processImage :: "Platform \<Rightarrow> EpubBook \<Rightarrow> Section \<Rightarrow> jsstring \<Rightarrow> Walk \<Rightarrow> Walk" where
  "processImage pf epubBook sec src w =
     (case fetchImage pf epubBook sec src of
        Inl e \<Rightarrow> w
      | Inr blobUrl \<Rightarrow>
          if length (currentParagraphs w) > 0
          then (case addParagraphsWithChunking (wLayers w) (currentParagraphs w) (globalIndex w)
                       (Some blobUrl) of
                  (layers', next) \<Rightarrow>
                    \<lparr>wLayers = layers', currentParagraphs = [], globalIndex = next\<rparr>)
          else \<lparr>wLayers = wLayers w @ [\<lparr>paragraphs = [], startIndex = globalIndex w,
                                         image = Some blobUrl\<rparr>],
                currentParagraphs = currentParagraphs w,
                globalIndex = globalIndex w + 1\<rparr>)"

text \<open>
  \<open>traverseDOM\<close>: \<open>traverseChild\<close> is the body of the loop for one child,
  \<open>traverseChildren\<close> the loop over \<open>element.children\<close>.
\<close>

fun traverseChild :: "Platform \<Rightarrow> EpubBook \<Rightarrow> Section \<Rightarrow> Element \<Rightarrow> Walk \<Rightarrow> Walk"
  and traverseChildren :: "Platform \<Rightarrow> EpubBook \<Rightarrow> Section \<Rightarrow> Element list \<Rightarrow> Walk \<Rightarrow> Walk" where
  "traverseChild pf epubBook sec (Element tag src content kids) w =
     (if toLowerCase tag = js ''p'' then pushText content w
      else if isHeadingTag (toLowerCase tag) then pushText content w
      else if toLowerCase tag = js ''img''
        then (if truthy src then processImage pf epubBook sec (the src) w else w)
      else if length kids > 0 then traverseChildren pf epubBook sec kids w
      else pushText content w)"
| "traverseChildren pf epubBook sec [] w = w"
| "traverseChildren pf epubBook sec (child # rest) w =
     traverseChildren pf epubBook sec rest (traverseChild pf epubBook sec child w)"

definition traverseDOM :: "Platform \<Rightarrow> EpubBook \<Rightarrow> Section \<Rightarrow> Element \<Rightarrow> Walk \<Rightarrow> Walk" where
  "traverseDOM pf epubBook sec element w = traverseChildren pf epubBook sec (children element) w"

definition parseHTML :: "Platform \<Rightarrow> EpubBook \<Rightarrow> Section \<Rightarrow> Document \<Rightarrow> ContentLayer list" where
  "parseHTML pf epubBook sec document =
     (case body document of
        None \<Rightarrow> []
      | Some b \<Rightarrow>
          (let w = traverseDOM pf epubBook sec b
                     \<lparr>wLayers = [], currentParagraphs = [], globalIndex = 0\<rparr>
           in if length (currentParagraphs w) > 0
              then fst (addParagraphsWithChunking (wLayers w) (currentParagraphs w)
                          (globalIndex w) None)
              else wLayers w))"

section \<open>EpubAdapter.loadChapter\<close>

text \<open>The three diagnostic layers that \<open>loadChapter\<close> returns instead of raising.\<close>

definition missingLayer :: "jsstring \<Rightarrow> ContentLayer" where
  "missingLayer t =
     \<lparr>paragraphs = [[31456, 33410, 32, 34] @ t
                       @ [34, 32, 20869, 23481, 19981, 23384, 22312, 25110, 26080, 27861,
                          21152, 36733]],
      startIndex = 0, image = None\<rparr>"

definition emptyDocumentLayer :: "jsstring \<Rightarrow> ContentLayer" where
  "emptyDocumentLayer t =
     \<lparr>paragraphs = [[31456, 33410, 32, 34] @ t @ [34, 32, 20869, 23481, 20026, 31354]],
      startIndex = 0, image = None\<rparr>"

definition failedLayer :: "jsstring \<Rightarrow> thrown \<Rightarrow> ContentLayer" where
  "failedLayer t e =
     \<lparr>paragraphs = [[31456, 33410, 32, 34] @ t @ [34, 32, 21152, 36733, 22833, 36133],
                     [38169, 35823, 20449, 24687, 58, 32] @ errorText e],
      startIndex = 0, image = None\<rparr>"

text \<open>
  The \<open>try\<close> block of \<open>loadChapter\<close>. Every failure in it is caught and
  answered with a diagnostic layer: a throwing section lookup, no section, a rejected
  \<open>section.load\<close> (which fetches and parses the markup), no document, and a throw
  out of \<open>parseHTML\<close>. \<open>parse\<close> is the awaited \<open>parseHTML\<close> of the copy at
  hand.
\<close>

definition loadSection ::
  "(EpubBook \<Rightarrow> Section \<Rightarrow> Document \<Rightarrow> thrown + ContentLayer list) \<Rightarrow> EpubBook
    \<Rightarrow> UnifiedChapter \<Rightarrow> nat \<Rightarrow> ContentLayer list" where
  "loadSection parse epubBook chapter chapterId =
     (case spineGet epubBook
             (if truthy (ch_href chapter) then Inl (the (ch_href chapter)) else Inr chapterId) of
        Inl e \<Rightarrow> [failedLayer (title chapter) e]
      | Inr None \<Rightarrow> [missingLayer (title chapter)]
      | Inr (Some sec) \<Rightarrow>
          (case load sec of
             Inl e \<Rightarrow> [failedLayer (title chapter) e]
           | Inr None \<Rightarrow> [emptyDocumentLayer (title chapter)]
           | Inr (Some document) \<Rightarrow>
               (case parse epubBook sec document of
                  Inl e \<Rightarrow> [failedLayer (title chapter) e]
                | Inr layers \<Rightarrow> layers)))"

text \<open>
  \<open>loadChapter\<close>: the chapter lookup raises, a loaded chapter answers from the book,
  the container is opened, the rest is \<open>loadSection\<close>.
\<close>

definition epubLoadChapterWith ::
  "(EpubBook \<Rightarrow> Section \<Rightarrow> Document \<Rightarrow> thrown + ContentLayer list) \<Rightarrow> Platform
    \<Rightarrow> UnifiedBook \<Rightarrow> nat \<Rightarrow> thrown + ContentLayer list" where
  "epubLoadChapterWith parse pf book chapterId =
     (if \<not> chapterId < length (chapters book)
      then Inl (Error (notFoundMessage pf chapterId))
      else (let chapter = chapters book ! chapterId
            in if isLoaded chapter \<and> length (ch_layers chapter) > 0 then Inr (ch_layers chapter)
               else (let epubBook = ePub pf (rawData book)
                     in Inr (loadSection parse epubBook chapter chapterId))))"

text \<open>The copy with \<open>startIndex\<close>; its \<open>parseHTML\<close> throws nothing.\<close>

definition epubLoadChapter :: "Platform \<Rightarrow> UnifiedBook \<Rightarrow> nat \<Rightarrow> thrown + ContentLayer list" where
  "epubLoadChapter pf book chapterId =
     epubLoadChapterWith (\<lambda>epubBook sec document. Inr (parseHTML pf epubBook sec document))
       pf book chapterId"

section \<open>EpubAdapter: the copy in src/adapters/EpubAdapter.ts\<close>

text \<open>
  The repository holds a second copy of the adapter, the file that
  \<open>@/adapters/EpubAdapter\<close> resolves to. It names the index field
  \<open>startGlobalIndex\<close> (the \<open>startIndex\<close> field of the record here) and its counter
  \<open>chapterParaCounter\<close> (the \<open>globalIndex\<close> field of the walk state). It differs
  from the copy above in three places: an image adds nothing to the counter,
  an image-only layer leaves the counter as it is, and \<open>parseHTML\<close> drops the counter
  that \<open>traverseDOM\<close> returns. Its functions carry the suffix 0.
\<close>

fun epubChunkLoop0 ::
  "jsstring list \<Rightarrow> jsstring option \<Rightarrow> ContentLayer list \<Rightarrow> jsstring list \<Rightarrow> nat \<Rightarrow> nat
    \<Rightarrow> bool \<Rightarrow> ContentLayer list \<times> jsstring list \<times> nat \<times> nat \<times> bool" where
  "epubChunkLoop0 [] img layers currentChunk currentChunkSize currentStartIndex isFirstChunk =
     (layers, currentChunk, currentChunkSize, currentStartIndex, isFirstChunk)"
| "epubChunkLoop0 (para # rest) img layers currentChunk currentChunkSize currentStartIndex
       isFirstChunk =
     (if currentChunkSize + length para > MAX_LAYER_LENGTH \<and> length currentChunk > 0
      then epubChunkLoop0 rest img
             (layers @ [\<lparr>paragraphs = currentChunk, startIndex = currentStartIndex,
                         image = (if isFirstChunk then img else None)\<rparr>])
             ([] @ [para]) (0 + length para)
             (currentStartIndex + length currentChunk)
             False
      else epubChunkLoop0 rest img layers (currentChunk @ [para])
             (currentChunkSize + length para) currentStartIndex isFirstChunk)"

definition addParagraphsWithChunking0 ::
  "ContentLayer list \<Rightarrow> jsstring list \<Rightarrow> nat \<Rightarrow> jsstring option \<Rightarrow> ContentLayer list \<times> nat" where
  "addParagraphsWithChunking0 layers ps startGlobalIndex img =
     (if totalChars ps \<le> MAX_LAYER_LENGTH
      then (layers @ [\<lparr>paragraphs = ps, startIndex = startGlobalIndex, image = img\<rparr>],
            startGlobalIndex + length ps)
      else (case epubChunkLoop0 ps img layers [] 0 startGlobalIndex True of
              (layers', currentChunk, currentChunkSize, currentStartIndex, isFirstChunk) \<Rightarrow>
                if length currentChunk > 0
                then (layers' @ [\<lparr>paragraphs = currentChunk, startIndex = currentStartIndex,
                                    image = (if isFirstChunk then img else None)\<rparr>],
                      currentStartIndex + length currentChunk)
                else (layers', currentStartIndex)))"

definition processImage0 :: "Platform \<Rightarrow> EpubBook \<Rightarrow> Section \<Rightarrow> jsstring \<Rightarrow> Walk \<Rightarrow> Walk" where
  "processImage0 pf epubBook sec src w =
     (case fetchImage pf epubBook sec src of
        Inl e \<Rightarrow> w
      | Inr blobUrl \<Rightarrow>
          if length (currentParagraphs w) > 0
          then (case addParagraphsWithChunking0 (wLayers w) (currentParagraphs w) (globalIndex w)
                       (Some blobUrl) of
                  (layers', next) \<Rightarrow>
                    \<lparr>wLayers = layers', currentParagraphs = [], globalIndex = next\<rparr>)
          else \<lparr>wLayers = wLayers w @ [\<lparr>paragraphs = [], startIndex = globalIndex w,
                                         image = Some blobUrl\<rparr>],
                currentParagraphs = currentParagraphs w,
                globalIndex = globalIndex w\<rparr>)"

fun traverseChild0 :: "Platform \<Rightarrow> EpubBook \<Rightarrow> Section \<Rightarrow> Element \<Rightarrow> Walk \<Rightarrow> Walk"
  and traverseChildren0 :: "Platform \<Rightarrow> EpubBook \<Rightarrow> Section \<Rightarrow> Element list \<Rightarrow> Walk \<Rightarrow> Walk" where
  "traverseChild0 pf epubBook sec (Element tag src content kids) w =
     (if toLowerCase tag = js ''p'' then pushText content w
      else if isHeadingTag (toLowerCase tag) then pushText content w
      else if toLowerCase tag = js ''img''
        then (if truthy src then processImage0 pf epubBook sec (the src) w else w)
      else if length kids > 0 then traverseChildren0 pf epubBook sec kids w
      else pushText content w)"
| "traverseChildren0 pf epubBook sec [] w = w"
| "traverseChildren0 pf epubBook sec (child # rest) w =
     traverseChildren0 pf epubBook sec rest (traverseChild0 pf epubBook sec child w)"

definition traverseDOM0 :: "Platform \<Rightarrow> EpubBook \<Rightarrow> Section \<Rightarrow> Element \<Rightarrow> Walk \<Rightarrow> Walk" where
  "traverseDOM0 pf epubBook sec element w = traverseChildren0 pf epubBook sec (children element) w"

text \<open>
  \<open>parseHTML\<close> of this copy awaits \<open>traverseDOM\<close> without assigning its result, so
  the final flush starts at the initial \<open>chapterParaCounter\<close>, 0.
\<close>

definition parseHTML0 :: "Platform \<Rightarrow> EpubBook \<Rightarrow> Section \<Rightarrow> Document \<Rightarrow> ContentLayer list" where
  "parseHTML0 pf epubBook sec document =
     (case body document of
        None \<Rightarrow> []
      | Some b \<Rightarrow>
          (let chapterParaCounter = 0;
               w = traverseDOM0 pf epubBook sec b
                     \<lparr>wLayers = [], currentParagraphs = [], globalIndex = chapterParaCounter\<rparr>
           in if length (currentParagraphs w) > 0
              then fst (addParagraphsWithChunking0 (wLayers w) (currentParagraphs w)
                          chapterParaCounter None)
              else wLayers w))"

definition epubLoadChapter0 :: "Platform \<Rightarrow> UnifiedBook \<Rightarrow> nat \<Rightarrow> thrown + ContentLayer list" where
  "epubLoadChapter0 pf book chapterId =
     epubLoadChapterWith (\<lambda>epubBook sec document. Inr (parseHTML0 pf epubBook sec document))
       pf book chapterId"

section \<open>TxtAdapter.loadChapter\<close>

text \<open>\<open>decodeText\<close>: strict UTF-8, then GBK, then lossy UTF-8; it never throws.\<close>

definition decodeText :: "Platform \<Rightarrow> nat list \<Rightarrow> jsstring" where
  "decodeText pf arrayBuffer =
     (case utf8Fatal pf arrayBuffer of
        Some text \<Rightarrow> text
      | None \<Rightarrow> (case gbk pf arrayBuffer of Some text \<Rightarrow> text | None \<Rightarrow> utf8 pf arrayBuffer))"

text \<open>
  \<open>CHAPTER_REGEX.test(line)\<close>. The pattern is anchored at the start of the line:
  the character U+7B2C, then one or more numerals (the thirteen Chinese numerals
  U+4E00, U+4E8C, U+4E09, U+56DB, U+4E94, U+516D, U+4E03, U+516B, U+4E5D, U+5341,
  U+767E, U+5343, U+4E07, or a digit 0 to 9), then one chapter word (U+7AE0, U+56DE,
  U+8282, U+5377, U+96C6, U+90E8, U+7BC7), then anything. The two character classes
  are disjoint, so the run of numerals is the longest one.
\<close>

definition isNumeral :: "nat \<Rightarrow> bool" where
  "isNumeral c =
     (c \<in> {19968, 20108, 19977, 22235, 20116, 20845, 19971, 20843, 20061, 21313, 30334,
            21315, 19975}
      \<or> (48 \<le> c \<and> c \<le> 57))"

definition isChapterWord :: "nat \<Rightarrow> bool" where
  "isChapterWord c = (c \<in> {31456, 22238, 33410, 21367, 38598, 37096, 31687})"

definition CHAPTER_REGEX_test :: "jsstring \<Rightarrow> bool" where
  "CHAPTER_REGEX_test line =
     (case line of
        [] \<Rightarrow> False
      | c # rest \<Rightarrow>
          c = 31532 \<and> takeWhile isNumeral rest \<noteq> [] \<and>
          (case dropWhile isNumeral rest of [] \<Rightarrow> False | d # _ \<Rightarrow> isChapterWord d))"

text \<open>The first index \<open>i\<close>, counted from \<open>i0\<close>, of an element that satisfies \<open>P\<close>.\<close>

fun findFirst :: "('a \<Rightarrow> bool) \<Rightarrow> 'a list \<Rightarrow> nat \<Rightarrow> nat option" where
  "findFirst P [] i0 = None"
| "findFirst P (x # xs) i0 = (if P x then Some i0 else findFirst P xs (i0 + 1))"

definition findChapterBounds ::
  "jsstring list \<Rightarrow> jsstring \<Rightarrow> nat \<Rightarrow> UnifiedChapter list \<Rightarrow> nat \<times> nat" where
  "findChapterBounds lines chapterTitle chapterId allChapters =
     (let startLine = (case findFirst (\<lambda>l. trim l = chapterTitle) lines 0 of
                         Some i \<Rightarrow> i + 1 | None \<Rightarrow> 0);
          endLine = (if int chapterId < int (length allChapters) - 1
                     then (case findFirst (\<lambda>l. trim l = title (allChapters ! (chapterId + 1)))
                                  (drop startLine lines) startLine of
                             Some i \<Rightarrow> i | None \<Rightarrow> length lines)
                     else length lines)
      in (startLine, endLine))"

text \<open>
  The loop \<open>for (let i = startLine; i < endLine; i++)\<close>: the trimmed lines of the
  span that are neither headings nor empty.
\<close>

definition chapterParagraphs :: "jsstring list \<Rightarrow> nat \<Rightarrow> nat \<Rightarrow> jsstring list" where
  "chapterParagraphs lines startLine endLine =
     filter (\<lambda>line. \<not> CHAPTER_REGEX_test line \<and> line \<noteq> [])
       (map trim (take (endLine - startLine) (drop startLine lines)))"

definition txtLoadChapter :: "Platform \<Rightarrow> UnifiedBook \<Rightarrow> nat \<Rightarrow> thrown + ContentLayer list" where
  "txtLoadChapter pf book chapterId =
     (if \<not> chapterId < length (chapters book) then Inl (Error (notFoundMessage pf chapterId))
      else (let chapter = chapters book ! chapterId
            in if isLoaded chapter \<and> length (ch_layers chapter) > 0 then Inr (ch_layers chapter)
               else (let lines = split 10 (decodeText pf (rawData book))
                     in case findChapterBounds lines (title chapter) chapterId (chapters book) of
                          (startLine, endLine) \<Rightarrow>
                            Inr (chunkParagraphs (chapterParagraphs lines startLine endLine)))))"

section \<open>ChapterCache\<close>

text \<open>
  \<open>Date.now()\<close> is an integer number of milliseconds. The \<open>Map\<close> is a list of
  key and entry in insertion order: \<open>set\<close> on a present key replaces the value in
  place, on a new key appends; \<open>delete\<close> removes the key.
\<close>

record CacheEntry =
  chapterId :: nat
  ce_layers :: "ContentLayer list"
  lastAccess :: int

fun mapSet :: "(nat \<times> 'v) list \<Rightarrow> nat \<Rightarrow> 'v \<Rightarrow> (nat \<times> 'v) list" where
  "mapSet [] k v = [(k, v)]"
| "mapSet ((k', v') # rest) k v =
     (if k' = k then (k, v) # rest else (k', v') # mapSet rest k v)"

definition mapDelete :: "(nat \<times> 'v) list \<Rightarrow> nat \<Rightarrow> (nat \<times> 'v) list" where
  "mapDelete m k = filter (\<lambda>(k', v). k' \<noteq> k) m"

text \<open>
  The state of a cache: its \<open>cache\<close> map, its \<open>book\<close>, its \<open>prefetchQueue\<close>,
  and \<open>revoked\<close>, the blob URLs that have been passed to \<open>URL.revokeObjectURL\<close>.
\<close>

record ChapterCache =
  cache :: "(nat \<times> CacheEntry) list"
  book :: UnifiedBook
  prefetchQueue :: "nat list"
  revoked :: "jsstring list"

definition MAX_CACHE_SIZE :: nat where
  "MAX_CACHE_SIZE = 5"

text \<open>The constructor.\<close>

definition newChapterCache :: "UnifiedBook \<Rightarrow> ChapterCache" where
  "newChapterCache b = \<lparr>cache = [], book = b, prefetchQueue = [], revoked = []\<rparr>"

text \<open>
  The private \<open>loadChapter\<close>: the adapter for the format of the book. The cache
  imports \<open>@/adapters/EpubAdapter\<close>, the copy in src/adapters/EpubAdapter.ts.
\<close>

definition cacheLoadChapter :: "Platform \<Rightarrow> UnifiedBook \<Rightarrow> nat \<Rightarrow> thrown + ContentLayer list" where
  "cacheLoadChapter pf b cid =
     (if format b = Txt then txtLoadChapter pf b cid else epubLoadChapter0 pf b cid)"

text \<open>
  \<open>cleanupBlobUrls\<close>: revoke the image of every layer that the book holds for the
  chapter, when it is a blob URL.
\<close>

definition cleanupBlobUrls :: "nat \<Rightarrow> ChapterCache \<Rightarrow> ChapterCache" where
  "cleanupBlobUrls cid st =
     (if \<not> cid < length (chapters (book st)) then st
      else st\<lparr>revoked := revoked st @
             concat (map (\<lambda>layer. case image layer of
                                     None \<Rightarrow> []
                                   | Some url \<Rightarrow>
                                       if url \<noteq> [] \<and> startsWith url (js ''blob:'') then [url]
                                       else [])
                       (ch_layers (chapters (book st) ! cid)))\<rparr>)"

text \<open>
  The search loop of \<open>evictIfNeeded\<close>; \<open>oldestTime\<close> starts as \<open>Infinity\<close>,
  which is \<open>None\<close> here.
\<close>

fun findOldest :: "(nat \<times> CacheEntry) list \<Rightarrow> nat option \<Rightarrow> int option \<Rightarrow> nat option" where
  "findOldest [] oldestChapterId oldestTime = oldestChapterId"
| "findOldest ((cid, entry) # rest) oldestChapterId oldestTime =
     (if (case oldestTime of None \<Rightarrow> True | Some t \<Rightarrow> lastAccess entry < t)
      then findOldest rest (Some cid) (Some (lastAccess entry))
      else findOldest rest oldestChapterId oldestTime)"

text \<open>
  \<open>evictIfNeeded\<close>: delete the oldest entry from the map, reset the chapter in the
  book (\<open>layers = []\<close>, \<open>isLoaded = false\<close>), and then call \<open>cleanupBlobUrls\<close>.
\<close>

definition resetChapter :: "nat \<Rightarrow> UnifiedBook \<Rightarrow> UnifiedBook" where
  "resetChapter cid b =
     (if cid < length (chapters b)
      then b\<lparr>chapters := (chapters b)[cid := (chapters b ! cid)\<lparr>ch_layers := [], isLoaded := False\<rparr>]\<rparr>
      else b)"

definition evictIfNeeded :: "ChapterCache \<Rightarrow> ChapterCache" where
  "evictIfNeeded st =
     (if length (cache st) \<le> MAX_CACHE_SIZE then st
      else (case findOldest (cache st) None None of
              None \<Rightarrow> st
            | Some oldestChapterId \<Rightarrow>
                cleanupBlobUrls oldestChapterId
                  (st\<lparr>cache := mapDelete (cache st) oldestChapterId,
                      book := resetChapter oldestChapterId (book st)\<rparr>)))"

text \<open>
  \<open>getChapter\<close>, as one completed call: \<open>now\<close> is the value of \<open>Date.now()\<close> in
  it. The result is what the call returns or raises, and the state after it. A hit
  refreshes \<open>lastAccess\<close>. A miss loads the chapter (an error of the adapter
  propagates and nothing changes), stores the entry, writes \<open>layers\<close> and
  \<open>isLoaded\<close> into the book (a TypeError for a chapter the book does not have) and
  evicts. \<open>schedulePrefetch\<close> registers a callback that later calls \<open>getChapter\<close>
  for the neighbours; it changes neither map nor book, and its calls are calls of
  \<open>getChapter\<close> like any other.
\<close>

definition getChapter ::
  "Platform \<Rightarrow> int \<Rightarrow> nat \<Rightarrow> ChapterCache \<Rightarrow> (thrown + ContentLayer list) \<times> ChapterCache" where
  "getChapter pf now cid st =
     (case map_of (cache st) cid of
        Some entry \<Rightarrow>
          (Inr (ce_layers entry),
           st\<lparr>cache := mapSet (cache st) cid (entry\<lparr>lastAccess := now\<rparr>)\<rparr>)
      | None \<Rightarrow>
          (case cacheLoadChapter pf (book st) cid of
             Inl e \<Rightarrow> (Inl e, st)
           | Inr layers \<Rightarrow>
               (let st1 = st\<lparr>cache := mapSet (cache st) cid
                               \<lparr>chapterId = cid, ce_layers = layers, lastAccess = now\<rparr>\<rparr>
                in if \<not> cid < length (chapters (book st1))
                   then (Inl (Error (js ''Cannot set properties of undefined'')), st1)
                   else (let b = book st1;
                             st2 = st1\<lparr>book := b\<lparr>chapters := (chapters b)
                                       [cid := (chapters b ! cid)\<lparr>ch_layers := layers,
                                                                  isLoaded := True\<rparr>]\<rparr>\<rparr>
                         in (Inr layers, evictIfNeeded st2)))))"

text \<open>\<open>clear\<close>: revoke the blob URLs of every cached chapter, then empty map and queue.\<close>

definition clear :: "ChapterCache \<Rightarrow> ChapterCache" where
  "clear st =
     (fold cleanupBlobUrls (map fst (cache st)) st)\<lparr>cache := [], prefetchQueue := []\<rparr>"

text \<open>\<open>getStats\<close>: size, capacity and the cached chapter ids.\<close>

definition getStats :: "ChapterCache \<Rightarrow> nat \<times> nat \<times> nat list" where
  "getStats st = (length (cache st), MAX_CACHE_SIZE, map fst (cache st))"

text \<open>
  A sequence of completed \<open>getChapter\<close> calls, each with its chapter id and its
  clock value; a call that raises leaves its state to the next call.
\<close>

fun getChapters :: "Platform \<Rightarrow> (nat \<times> int) list \<Rightarrow> ChapterCache \<Rightarrow> ChapterCache" where
  "getChapters pf [] st = st"
| "getChapters pf ((cid, now) # calls) st = getChapters pf calls (snd (getChapter pf now cid st))"

section \<open>Invariant of the tree walk\<close>

text \<open>The layers form a chain of indices from 0 that ends at the running index.\<close>

definition walkOk :: "Walk \<Rightarrow> bool" where
  "walkOk w = (chainFrom 0 (wLayers w) \<and> chainEnd 0 (wLayers w) = globalIndex w)"

section \<open>Invariants of the cache\<close>

text \<open>The keys of the map are distinct and there are at most \<open>MAX_CACHE_SIZE\<close> of them.\<close>

definition cacheOk :: "ChapterCache \<Rightarrow> bool" where
  "cacheOk st = (distinct (map fst (cache st)) \<and> length (cache st) \<le> MAX_CACHE_SIZE)"

text \<open>
  The book mirrors the map: a chapter is marked \<open>isLoaded\<close> exactly when its id is
  a key, and a chapter that is not cached holds no layers.
\<close>

definition mirrors :: "ChapterCache \<Rightarrow> bool" where
  "mirrors st =
     (\<forall>i < length (chapters (book st)).
        (isLoaded (chapters (book st) ! i) \<longleftrightarrow> i \<in> set (map fst (cache st))) \<and>
        (i \<notin> set (map fst (cache st)) \<longrightarrow> ch_layers (chapters (book st) ! i) = []))"

section \<open>Example inputs\<close>

text \<open>
  A section document with a paragraph, an image and a paragraph; a container whose
  archive holds \<open>/i.png\<close> and whose spine has that document at position 0 and
  documents without a body elsewhere; a platform that opens it and prints the chapter
  ids of the examples, all below 10, in decimal; a book of six chapters.
\<close>

definition exampleBody :: Element where
  "exampleBody =
     Element (js ''body'') None []
       [Element (js ''p'') None (js ''a'') [],
        Element (js ''img'') (Some (js ''i.png'')) [] [],
        Element (js ''p'') None (js ''b'') []]"

definition exampleSection :: "nat \<Rightarrow> Section" where
  "exampleSection n =
     \<lparr>canonical = Some (js ''/c.xhtml''), sec_href = None,
      load = Inr (Some \<lparr>body = (if n = 0 then Some exampleBody else None)\<rparr>)\<rparr>"

definition exampleContainer :: EpubBook where
  "exampleContainer =
     \<lparr>spineGet = (\<lambda>key. case key of Inl h \<Rightarrow> Inr None | Inr n \<Rightarrow> Inr (Some (exampleSection n))),
      request = (\<lambda>path. if path = js ''/i.png'' then Inr (Blob 7)
                         else Inl (Error (js ''File not found'')))\<rparr>"

definition examplePlatform :: Platform where
  "examplePlatform =
     \<lparr>utf8Fatal = (\<lambda>bytes. Some bytes), gbk = (\<lambda>bytes. None), utf8 = (\<lambda>bytes. bytes),
      numberToString = showNat,
      ePub = (\<lambda>bytes. exampleContainer),
      blobId = (\<lambda>b. js ''u'' @ showNat b)\<rparr>"

definition skeleton :: "nat \<Rightarrow> UnifiedChapter" where
  "skeleton i = \<lparr>ch_id = i, title = js ''c'', ch_layers = [], isLoaded = False, ch_href = None\<rparr>"

definition exampleBook :: UnifiedBook where
  "exampleBook =
     \<lparr>format = Epub,
      chapters = [skeleton 0, skeleton 1, skeleton 2, skeleton 3, skeleton 4, skeleton 5],
      rawData = [80, 75]\<rparr>"

text \<open>A full map of six entries, the second and the fourth with the smallest time.\<close>

definition entryAt :: "nat \<Rightarrow> int \<Rightarrow> nat \<times> CacheEntry" where
  "entryAt k t = (k, \<lparr>chapterId = k, ce_layers = [], lastAccess = t\<rparr>)"

definition exampleFull :: ChapterCache where
  "exampleFull =
     \<lparr>cache = [entryAt 0 5, entryAt 1 3, entryAt 2 7, entryAt 3 3, entryAt 4 9, entryAt 5 4],
      book = exampleBook, prefetchQueue = [], revoked = []\<rparr>"

section \<open>Chunking: helper lemmas\<close>

lemma foldl_totalChars: "foldl (\<lambda>sum p. sum + length p) a ps = a + sum_list (map length ps)"
  by (induction ps arbitrary: a) auto

lemma totalChars_sum: "totalChars ps = sum_list (map length ps)"
  by (simp add: totalChars_def foldl_totalChars)

lemma totalChars_simps [simp]:
  "totalChars [] = 0" "totalChars (ps @ [p]) = totalChars ps + length p"
  "totalChars (p # ps) = length p + totalChars ps"
  by (simp_all add: totalChars_sum)

lemma sizeOk_Nil [simp]: "sizeOk []"
  by (simp add: sizeOk_def)

lemma sizeOk_single [simp]: "sizeOk [p]"
  by (auto simp: sizeOk_def)

lemma sizeOk_small: "totalChars ps \<le> MAX_LAYER_LENGTH \<Longrightarrow> sizeOk ps"
  by (simp add: sizeOk_def)

lemma chainFrom_append:
  "chainFrom s (xs @ ys) = (chainFrom s xs \<and> chainFrom (chainEnd s xs) ys)"
  by (induction xs arbitrary: s) auto

lemma chainEnd_append: "chainEnd s (xs @ ys) = chainEnd (chainEnd s xs) ys"
  by (induction xs arbitrary: s) auto

lemma chainFrom_indexContinuity: "chainFrom s ls \<Longrightarrow> indexContinuity ls"
  by (induction ls arbitrary: s rule: indexContinuity.induct) auto

subsection \<open>The loop of \<open>chunkParagraphs\<close>\<close>

lemma txtChunkLoop_roundtrip:
  "txtChunkLoop ps L c n s = (L', c', n', s') \<Longrightarrow>
   concat (map paragraphs L') @ c' = concat (map paragraphs L) @ c @ ps"
  by (induction ps arbitrary: L c n s) (auto split: if_splits)

lemma txtChunkLoop_size:
  "txtChunkLoop ps L c n s = (L', c', n', s') \<Longrightarrow> n = totalChars c \<Longrightarrow> sizeOk c \<Longrightarrow>
   \<forall>l \<in> set L. sizeOk (paragraphs l) \<Longrightarrow>
   n' = totalChars c' \<and> sizeOk c' \<and> (\<forall>l \<in> set L'. sizeOk (paragraphs l))"
proof (induction ps arbitrary: L c n s)
  case Nil
  then show ?case by auto
next
  case (Cons para rest)
  show ?case
  proof (cases "n + length para > MAX_LAYER_LENGTH \<and> length c > 0")
    case True
    with Cons.prems have run:
      "txtChunkLoop rest (L @ [\<lparr>paragraphs = c, startIndex = s, image = None\<rparr>]) [para]
         (length para) (s + length c) = (L', c', n', s')"
      by simp
    show ?thesis
      by (rule Cons.IH [OF run]) (use Cons.prems in auto)
  next
    case False
    with Cons.prems have run:
      "txtChunkLoop rest L (c @ [para]) (n + length para) s = (L', c', n', s')"
      by auto
    have ok: "sizeOk (c @ [para])"
    proof (cases c)
      case Nil
      then show ?thesis by simp
    next
      case (Cons a as)
      with False \<open>n = totalChars c\<close> show ?thesis
        by (intro sizeOk_small) simp
    qed
    show ?thesis
      by (rule Cons.IH [OF run]) (use Cons.prems ok in auto)
  qed
qed


lemma txtChunkLoop_chain:
  "txtChunkLoop ps L c n s = (L', c', n', s') \<Longrightarrow> chainFrom k L \<Longrightarrow> chainEnd k L = s \<Longrightarrow>
   chainFrom k L' \<and> chainEnd k L' = s'"
proof (induction ps arbitrary: L c n s)
  case Nil
  then show ?case by auto
next
  case (Cons para rest)
  show ?case
  proof (cases "n + length para > MAX_LAYER_LENGTH \<and> length c > 0")
    case True
    with Cons.prems have run:
      "txtChunkLoop rest (L @ [\<lparr>paragraphs = c, startIndex = s, image = None\<rparr>]) [para]
         (length para) (s + length c) = (L', c', n', s')"
      by simp
    show ?thesis
      by (rule Cons.IH [OF run])
        (use Cons.prems in \<open>auto simp: chainFrom_append chainEnd_append nextIndex_def truthy_def\<close>)
  next
    case False
    with Cons.prems have run:
      "txtChunkLoop rest L (c @ [para]) (n + length para) s = (L', c', n', s')"
      by auto
    show ?thesis
      by (rule Cons.IH [OF run]) (use Cons.prems in auto)
  qed
qed

subsection \<open>The loop of \<open>addParagraphsWithChunking\<close>\<close>

lemma epubChunkLoop_roundtrip:
  "epubChunkLoop ps img L c n s f = (L', c', n', s', f') \<Longrightarrow>
   concat (map paragraphs L') @ c' = concat (map paragraphs L) @ c @ ps"
  by (induction ps arbitrary: L c n s f) (auto split: if_splits)


lemma epubChunkLoop_size:
  "epubChunkLoop ps img L c n s f = (L', c', n', s', f') \<Longrightarrow> n = totalChars c \<Longrightarrow> sizeOk c \<Longrightarrow>
   \<forall>l \<in> set L. sizeOk (paragraphs l) \<Longrightarrow>
   n' = totalChars c' \<and> sizeOk c' \<and> (\<forall>l \<in> set L'. sizeOk (paragraphs l))"
proof (induction ps arbitrary: L c n s f)
  case Nil
  then show ?case by auto
next
  case (Cons para rest)
  show ?case
  proof (cases "n + length para > MAX_LAYER_LENGTH \<and> length c > 0")
    case True
    with Cons.prems have run:
      "epubChunkLoop rest img
         (L @ [\<lparr>paragraphs = c, startIndex = s, image = (if f then img else None)\<rparr>]) [para]
         (length para) (s + length c + (if f \<and> truthy img then 1 else 0)) False = (L', c', n', s', f')"
      by simp
    show ?thesis
      by (rule Cons.IH [OF run]) (use Cons.prems in auto)
  next
    case False
    with Cons.prems have run:
      "epubChunkLoop rest img L (c @ [para]) (n + length para) s f = (L', c', n', s', f')"
      by auto
    have ok: "sizeOk (c @ [para])"
    proof (cases c)
      case Nil
      then show ?thesis by simp
    next
      case (Cons a as)
      with False \<open>n = totalChars c\<close> show ?thesis
        by (intro sizeOk_small) simp
    qed
    show ?thesis
      by (rule Cons.IH [OF run]) (use Cons.prems ok in auto)
  qed
qed

lemma epubChunkLoop_chain:
  "epubChunkLoop ps img L c n s f = (L', c', n', s', f') \<Longrightarrow> chainFrom k L \<Longrightarrow> chainEnd k L = s \<Longrightarrow>
   chainFrom k L' \<and> chainEnd k L' = s'"
proof (induction ps arbitrary: L c n s f)
  case Nil
  then show ?case by auto
next
  case (Cons para rest)
  show ?case
  proof (cases "n + length para > MAX_LAYER_LENGTH \<and> length c > 0")
    case True
    with Cons.prems have run:
      "epubChunkLoop rest img
         (L @ [\<lparr>paragraphs = c, startIndex = s, image = (if f then img else None)\<rparr>]) [para]
         (length para) (s + length c + (if f \<and> truthy img then 1 else 0)) False = (L', c', n', s', f')"
      by simp
    show ?thesis
      by (rule Cons.IH [OF run])
        (use Cons.prems in \<open>auto simp: chainFrom_append chainEnd_append nextIndex_def truthy_def\<close>)
  next
    case False
    with Cons.prems have run:
      "epubChunkLoop rest img L (c @ [para]) (n + length para) s f = (L', c', n', s', f')"
      by auto
    show ?thesis
      by (rule Cons.IH [OF run]) (use Cons.prems in auto)
  qed
qed


lemma txtChunkLoop_shape:
  "txtChunkLoop ps L c n s = (L', c', n', s') \<Longrightarrow>
   \<forall>l \<in> set L. length (paragraphs l) > 0 \<and> image l = None \<Longrightarrow>
   \<forall>l \<in> set L'. length (paragraphs l) > 0 \<and> image l = None"
proof (induction ps arbitrary: L c n s)
  case Nil
  then show ?case by auto
next
  case (Cons para rest)
  show ?case
  proof (cases "n + length para > MAX_LAYER_LENGTH \<and> length c > 0")
    case True
    with Cons.prems have run:
      "txtChunkLoop rest (L @ [\<lparr>paragraphs = c, startIndex = s, image = None\<rparr>]) [para]
         (length para) (s + length c) = (L', c', n', s')"
      by simp
    show ?thesis
      by (rule Cons.IH [OF run]) (use Cons.prems True in auto)
  next
    case False
    with Cons.prems have run:
      "txtChunkLoop rest L (c @ [para]) (n + length para) s = (L', c', n', s')"
      by auto
    show ?thesis
      by (rule Cons.IH [OF run]) (use Cons.prems in auto)
  qed
qed

lemma epubChunkLoop_layers:
  "epubChunkLoop ps img (L @ M) c n s f =
     (case epubChunkLoop ps img M c n s f of (N, r) \<Rightarrow> (L @ N, r))"
  by (induction ps arbitrary: M c n s f) simp_all

lemma addParagraphsWithChunking_layers:
  "addParagraphsWithChunking L ps s img =
     (L @ fst (addParagraphsWithChunking [] ps s img), snd (addParagraphsWithChunking [] ps s img))"
proof -
  have "epubChunkLoop ps img (L @ []) [] 0 s True =
     (case epubChunkLoop ps img [] [] 0 s True of (N, r) \<Rightarrow> (L @ N, r))"
    by (rule epubChunkLoop_layers)
  then show ?thesis
    by (auto simp: addParagraphsWithChunking_def split: prod.splits)
qed

lemma addParagraphsWithChunking_new:
  "drop (length L) (fst (addParagraphsWithChunking L ps s img)) =
     fst (addParagraphsWithChunking [] ps s img)"
  by (subst addParagraphsWithChunking_layers) simp

lemma chunkParagraphs_roundtrip: "concat (map paragraphs (chunkParagraphs P)) = P"
proof -
  obtain L c n s where run: "txtChunkLoop P [] [] 0 0 = (L, c, n, s)"
    by (metis prod_cases4)
  from txtChunkLoop_roundtrip [OF run] have "concat (map paragraphs L) @ c = P"
    by simp
  with run show ?thesis
    by (auto simp: chunkParagraphs_def)
qed

lemma addParagraphs_roundtrip:
  "concat (map paragraphs (fst (addParagraphsWithChunking [] P s img))) = P"
proof (cases "totalChars P \<le> MAX_LAYER_LENGTH")
  case True
  then show ?thesis by (simp add: addParagraphsWithChunking_def)
next
  case False
  obtain L c n k f where run: "epubChunkLoop P img [] [] 0 s True = (L, c, n, k, f)"
    by (metis prod_cases5)
  from epubChunkLoop_roundtrip [OF run] have "concat (map paragraphs L) @ c = P"
    by simp
  with run False show ?thesis
    by (auto simp: addParagraphsWithChunking_def)
qed

lemma chunkParagraphs_sizeOk: "l \<in> set (chunkParagraphs P) \<Longrightarrow> sizeOk (paragraphs l)"
proof -
  assume mem: "l \<in> set (chunkParagraphs P)"
  obtain L c n s where run: "txtChunkLoop P [] [] 0 0 = (L, c, n, s)"
    by (metis prod_cases4)
  from txtChunkLoop_size [OF run] have "sizeOk c" "\<forall>l \<in> set L. sizeOk (paragraphs l)"
    by simp_all
  with run mem show ?thesis
    by (auto simp: chunkParagraphs_def split: if_splits)
qed

lemma addParagraphs_sizeOk:
  "l \<in> set (fst (addParagraphsWithChunking [] P s img)) \<Longrightarrow> sizeOk (paragraphs l)"
proof (cases "totalChars P \<le> MAX_LAYER_LENGTH")
  case True
  assume "l \<in> set (fst (addParagraphsWithChunking [] P s img))"
  with True show ?thesis by (simp add: addParagraphsWithChunking_def sizeOk_small)
next
  case False
  assume mem: "l \<in> set (fst (addParagraphsWithChunking [] P s img))"
  obtain L c n k f where run: "epubChunkLoop P img [] [] 0 s True = (L, c, n, k, f)"
    by (metis prod_cases5)
  from epubChunkLoop_size [OF run] have "sizeOk c" "\<forall>l \<in> set L. sizeOk (paragraphs l)"
    by simp_all
  with run mem False show ?thesis
    by (auto simp: addParagraphsWithChunking_def split: if_splits)
qed

lemma chunkParagraphs_chain: "chainFrom 0 (chunkParagraphs P)"
proof -
  obtain L c n s where run: "txtChunkLoop P [] [] 0 0 = (L, c, n, s)"
    by (metis prod_cases4)
  from txtChunkLoop_chain [OF run, of 0] have "chainFrom 0 L" "chainEnd 0 L = s"
    by simp_all
  with run show ?thesis
    by (auto simp: chunkParagraphs_def chainFrom_append)
qed

lemma addParagraphs_chain:
  "chainFrom s (fst (addParagraphsWithChunking [] P s img)) \<and>
   chainEnd s (fst (addParagraphsWithChunking [] P s img)) = snd (addParagraphsWithChunking [] P s img)"
proof (cases "totalChars P \<le> MAX_LAYER_LENGTH")
  case True
  then show ?thesis by (simp add: addParagraphsWithChunking_def nextIndex_def)
next
  case False
  obtain L c n k f where run: "epubChunkLoop P img [] [] 0 s True = (L, c, n, k, f)"
    by (metis prod_cases5)
  from epubChunkLoop_chain [OF run, of s] have "chainFrom s L" "chainEnd s L = k"
    by simp_all
  with run False show ?thesis
    by (auto simp: addParagraphsWithChunking_def chainFrom_append chainEnd_append nextIndex_def truthy_def)
qed

lemma chunkParagraphs_shape:
  "l \<in> set (chunkParagraphs P) \<Longrightarrow> length (paragraphs l) > 0 \<and> image l = None"
proof -
  assume mem: "l \<in> set (chunkParagraphs P)"
  obtain L c n s where run: "txtChunkLoop P [] [] 0 0 = (L, c, n, s)"
    by (metis prod_cases4)
  from txtChunkLoop_shape [OF run] have "\<forall>l \<in> set L. length (paragraphs l) > 0 \<and> image l = None"
    by simp
  with run mem show ?thesis
    by (auto simp: chunkParagraphs_def split: if_splits)
qed

section \<open>The tree walk: helper lemmas\<close>

lemma traverseChildren_append:
  "traverseChildren pf epubBook sec (xs @ ys) w =
     traverseChildren pf epubBook sec ys (traverseChildren pf epubBook sec xs w)"
  by (induction xs arbitrary: w) simp_all

lemma img_not_p: "js ''img'' \<noteq> js ''p''" "\<not> isHeadingTag (js ''img'')"
  by (simp_all add: js_def isHeadingTag_def)

lemma external_fetch_fails:
  "startsWith src (js ''http://'') \<or> startsWith src (js ''https://'') \<Longrightarrow>
   fetchImage pf epubBook sec src = Inl (Error (js ''External images not supported''))"
  by (simp add: fetchImage_def resolveImagePath_def)

lemma processImage_failure:
  "isl (fetchImage pf epubBook sec src) \<Longrightarrow> processImage pf epubBook sec src w = w"
  by (cases "fetchImage pf epubBook sec src") (simp_all add: processImage_def)

lemma traverseChild_img_failure:
  assumes "toLowerCase tag = js ''img''"
    and "startsWith src (js ''http://'') \<or> startsWith src (js ''https://'')
         \<or> isl (fetchImage pf epubBook sec src)"
  shows "traverseChild pf epubBook sec (Element tag (Some src) content kids) w = w"
proof -
  from assms(2) have "isl (fetchImage pf epubBook sec src)"
    using external_fetch_fails [of src pf epubBook sec] by auto
  then have "processImage pf epubBook sec src w = w"
    by (rule processImage_failure)
  with assms(1) show ?thesis
    by (simp add: img_not_p)
qed

lemma createObjectURL_truthy: "truthy (Some (createObjectURL pf b))"
  by (simp add: truthy_def createObjectURL_def js_def)

lemma fetchImage_truthy: "fetchImage pf epubBook sec src = Inr url \<Longrightarrow> truthy (Some url)"
  by (auto simp: fetchImage_def createObjectURL_truthy split: sum.splits archiveData.splits)

lemma pushText_walkOk: "walkOk w \<Longrightarrow> walkOk (pushText content w)"
  by (simp add: walkOk_def pushText_def Let_def)

lemma processImage_walkOk:
  assumes "walkOk w"
  shows "walkOk (processImage pf epubBook sec src w)"
proof (cases "fetchImage pf epubBook sec src")
  case (Inl e)
  with assms show ?thesis by (simp add: processImage_def)
next
  case (Inr url)
  then have t: "truthy (Some url)" by (rule fetchImage_truthy)
  show ?thesis
  proof (cases "length (currentParagraphs w) > 0")
    case True
    have "addParagraphsWithChunking (wLayers w) (currentParagraphs w) (globalIndex w) (Some url) =
       (wLayers w @ fst (addParagraphsWithChunking [] (currentParagraphs w) (globalIndex w) (Some url)),
        snd (addParagraphsWithChunking [] (currentParagraphs w) (globalIndex w) (Some url)))"
      by (rule addParagraphsWithChunking_layers)
    with True Inr assms
      addParagraphs_chain [of "globalIndex w" "currentParagraphs w" "Some url"]
    show ?thesis
      by (simp add: processImage_def walkOk_def chainFrom_append chainEnd_append)
  next
    case False
    with Inr assms t show ?thesis
      by (simp add: processImage_def walkOk_def chainFrom_append chainEnd_append nextIndex_def)
  qed
qed

lemma traverse_walkOk:
  "walkOk w \<Longrightarrow> walkOk (traverseChild pf epubBook sec child w)"
  "walkOk w \<Longrightarrow> walkOk (traverseChildren pf epubBook sec kids w)"
proof (induction pf epubBook sec child w and pf epubBook sec kids w
    rule: traverseChild_traverseChildren.induct)
  case (1 pf epubBook sec tag src content kids w)
  then show ?case
    by (simp add: pushText_walkOk processImage_walkOk)
next
  case (2 pf epubBook sec w)
  then show ?case by simp
next
  case (3 pf epubBook sec child rest w)
  then show ?case by simp
qed

lemma parseHTML_chain: "chainFrom 0 (parseHTML pf epubBook sec document)"
proof (cases "body document")
  case None
  then show ?thesis by (simp add: parseHTML_def)
next
  case (Some b)
  define w where "w = traverseDOM pf epubBook sec b \<lparr>wLayers = [], currentParagraphs = [], globalIndex = 0\<rparr>"
  have "walkOk \<lparr>wLayers = [], currentParagraphs = [], globalIndex = 0\<rparr>"
    by (simp add: walkOk_def)
  then have ok: "walkOk w"
    unfolding w_def traverseDOM_def by (rule traverse_walkOk(2))
  have "addParagraphsWithChunking (wLayers w) (currentParagraphs w) (globalIndex w) None =
       (wLayers w @ fst (addParagraphsWithChunking [] (currentParagraphs w) (globalIndex w) None),
        snd (addParagraphsWithChunking [] (currentParagraphs w) (globalIndex w) None))"
    by (rule addParagraphsWithChunking_layers)
  with ok addParagraphs_chain [of "globalIndex w" "currentParagraphs w" None] Some
  show ?thesis
    by (simp add: parseHTML_def Let_def w_def [symmetric] walkOk_def chainFrom_append)
qed

section \<open>ChapterCache: helper lemmas\<close>

lemma mapSet_keys:
  "map fst (mapSet m k v) = (if k \<in> set (map fst m) then map fst m else map fst m @ [k])"
  by (induction m) force+

lemma mapSet_distinct: "distinct (map fst m) \<Longrightarrow> distinct (map fst (mapSet m k v))"
  by (simp add: mapSet_keys)

lemma mapSet_length: "length (mapSet m k v) = (if k \<in> set (map fst m) then length m else Suc (length m))"
  using arg_cong [OF mapSet_keys, of length m k v] by (simp split: if_splits)

lemma mapDelete_keys: "map fst (mapDelete m k) = filter (\<lambda>k'. k' \<noteq> k) (map fst m)"
  by (induction m) (auto simp: mapDelete_def)

lemma mapDelete_absent: "k \<notin> fst ` set xs \<Longrightarrow> mapDelete xs k = xs"
  by (induction xs) (auto simp: mapDelete_def)

lemma mapDelete_split:
  "distinct (map fst (pre @ (k, e) # post)) \<Longrightarrow> mapDelete (pre @ (k, e) # post) k = pre @ post"
proof -
  assume "distinct (map fst (pre @ (k, e) # post))"
  then have "k \<notin> fst ` set pre" "k \<notin> fst ` set post" by auto
  then have "mapDelete pre k = pre" "mapDelete post k = post"
    by (simp_all add: mapDelete_absent)
  then show ?thesis by (simp add: mapDelete_def)
qed

lemma findOldest_from:
  "findOldest rest (Some k0) (Some t0) = Some k \<Longrightarrow>
   (k = k0 \<and> (\<forall>x \<in> set rest. t0 \<le> lastAccess (snd x))) \<or>
   (\<exists>pre e post. rest = pre @ (k, e) # post \<and> lastAccess e < t0 \<and>
      (\<forall>x \<in> set pre. lastAccess e < lastAccess (snd x)) \<and>
      (\<forall>x \<in> set post. lastAccess e \<le> lastAccess (snd x)))"
proof (induction rest arbitrary: k0 t0)
  case Nil
  then show ?case by simp
next
  case (Cons a r)
  obtain c en where a: "a = (c, en)" by (cases a)
  show ?case
  proof (cases "lastAccess en < t0")
    case True
    with Cons.prems a have run: "findOldest r (Some c) (Some (lastAccess en)) = Some k"
      by simp
    from Cons.IH [OF run] show ?thesis
    proof
      assume "k = c \<and> (\<forall>x \<in> set r. lastAccess en \<le> lastAccess (snd x))"
      with True a have "a # r = [] @ (k, en) # r \<and> lastAccess en < t0 \<and>
          (\<forall>x \<in> set []. lastAccess en < lastAccess (snd x)) \<and>
          (\<forall>x \<in> set r. lastAccess en \<le> lastAccess (snd x))"
        by simp
      then show ?thesis by blast
    next
      assume "\<exists>pre e post. r = pre @ (k, e) # post \<and> lastAccess e < lastAccess en \<and>
        (\<forall>x \<in> set pre. lastAccess e < lastAccess (snd x)) \<and>
        (\<forall>x \<in> set post. lastAccess e \<le> lastAccess (snd x))"
      then obtain pre e post where r: "r = pre @ (k, e) # post"
        and lt: "lastAccess e < lastAccess en"
        and pre: "\<forall>x \<in> set pre. lastAccess e < lastAccess (snd x)"
        and post: "\<forall>x \<in> set post. lastAccess e \<le> lastAccess (snd x)"
        by blast
      from r a lt pre post True
      have "a # r = (a # pre) @ (k, e) # post \<and> lastAccess e < t0 \<and>
          (\<forall>x \<in> set (a # pre). lastAccess e < lastAccess (snd x)) \<and>
          (\<forall>x \<in> set post. lastAccess e \<le> lastAccess (snd x))"
        by simp
      then show ?thesis by blast
    qed
  next
    case False
    with Cons.prems a have run: "findOldest r (Some k0) (Some t0) = Some k"
      by simp
    from Cons.IH [OF run] show ?thesis
    proof
      assume "k = k0 \<and> (\<forall>x \<in> set r. t0 \<le> lastAccess (snd x))"
      with False a show ?thesis by simp
    next
      assume "\<exists>pre e post. r = pre @ (k, e) # post \<and> lastAccess e < t0 \<and>
        (\<forall>x \<in> set pre. lastAccess e < lastAccess (snd x)) \<and>
        (\<forall>x \<in> set post. lastAccess e \<le> lastAccess (snd x))"
      then obtain pre e post where r: "r = pre @ (k, e) # post"
        and lt: "lastAccess e < t0"
        and pre: "\<forall>x \<in> set pre. lastAccess e < lastAccess (snd x)"
        and post: "\<forall>x \<in> set post. lastAccess e \<le> lastAccess (snd x)"
        by blast
      from r a lt pre post False
      have "a # r = (a # pre) @ (k, e) # post \<and> lastAccess e < t0 \<and>
          (\<forall>x \<in> set (a # pre). lastAccess e < lastAccess (snd x)) \<and>
          (\<forall>x \<in> set post. lastAccess e \<le> lastAccess (snd x))"
        by simp
      then show ?thesis by blast
    qed
  qed
qed

lemma findOldest_Some_total: "\<exists>k. findOldest rest (Some k0) t = Some k"
  by (induction rest arbitrary: k0 t) auto

lemma findOldest_first_minimum:
  assumes "m \<noteq> []"
  shows "\<exists>pre k e post. findOldest m None None = Some k \<and> m = pre @ (k, e) # post \<and>
      (\<forall>x \<in> set pre. lastAccess e < lastAccess (snd x)) \<and>
      (\<forall>x \<in> set post. lastAccess e \<le> lastAccess (snd x))"
proof -
  from assms obtain c en r where m: "m = (c, en) # r"
    by (cases m) auto
  obtain k where run: "findOldest r (Some c) (Some (lastAccess en)) = Some k"
    using findOldest_Some_total by blast
  from findOldest_from [OF run] show ?thesis
  proof
    assume "k = c \<and> (\<forall>x \<in> set r. lastAccess en \<le> lastAccess (snd x))"
    with m run have "findOldest m None None = Some k \<and> m = [] @ (k, en) # r \<and>
      (\<forall>x \<in> set []. lastAccess en < lastAccess (snd x)) \<and>
      (\<forall>x \<in> set r. lastAccess en \<le> lastAccess (snd x))"
      by simp
    then show ?thesis by blast
  next
    assume "\<exists>pre e post. r = pre @ (k, e) # post \<and> lastAccess e < lastAccess en \<and>
        (\<forall>x \<in> set pre. lastAccess e < lastAccess (snd x)) \<and>
        (\<forall>x \<in> set post. lastAccess e \<le> lastAccess (snd x))"
    then obtain pre e post where r: "r = pre @ (k, e) # post"
        and lt: "lastAccess e < lastAccess en"
        and pre: "\<forall>x \<in> set pre. lastAccess e < lastAccess (snd x)"
        and post: "\<forall>x \<in> set post. lastAccess e \<le> lastAccess (snd x)"
      by blast
    with m run have "findOldest m None None = Some k \<and> m = ((c, en) # pre) @ (k, e) # post \<and>
      (\<forall>x \<in> set ((c, en) # pre). lastAccess e < lastAccess (snd x)) \<and>
      (\<forall>x \<in> set post. lastAccess e \<le> lastAccess (snd x))"
      by simp
    then show ?thesis by blast
  qed
qed

lemma cleanupBlobUrls_cache [simp]:
  "cache (cleanupBlobUrls cid st) = cache st" "book (cleanupBlobUrls cid st) = book st"
  "prefetchQueue (cleanupBlobUrls cid st) = prefetchQueue st"
  by (simp_all add: cleanupBlobUrls_def)

lemma resetChapter_length [simp]: "length (chapters (resetChapter k b)) = length (chapters b)"
  by (simp add: resetChapter_def)

lemma resetChapter_nth:
  "i < length (chapters b) \<Longrightarrow>
   chapters (resetChapter k b) ! i =
     (if i = k then (chapters b ! i)\<lparr>ch_layers := [], isLoaded := False\<rparr> else chapters b ! i)"
  by (simp add: resetChapter_def)

lemma cleanup_after_reset:
  "revoked (cleanupBlobUrls k (st\<lparr>cache := c, book := resetChapter k (book st)\<rparr>)) = revoked st"
  by (simp add: cleanupBlobUrls_def resetChapter_nth)

lemma evictIfNeeded_removes:
  assumes big: "MAX_CACHE_SIZE < length (cache st)" and d: "distinct (map fst (cache st))"
  shows "\<exists>pre k e post. cache st = pre @ (k, e) # post \<and>
      cache (evictIfNeeded st) = pre @ post \<and>
      book (evictIfNeeded st) = resetChapter k (book st) \<and>
      (\<forall>x \<in> set pre. lastAccess e < lastAccess (snd x)) \<and>
      (\<forall>x \<in> set post. lastAccess e \<le> lastAccess (snd x))"
proof -
  from big have "cache st \<noteq> []" by auto
  from findOldest_first_minimum [OF this] obtain pre k e post
    where f: "findOldest (cache st) None None = Some k"
      and m: "cache st = pre @ (k, e) # post"
      and pre: "\<forall>x \<in> set pre. lastAccess e < lastAccess (snd x)"
      and post: "\<forall>x \<in> set post. lastAccess e \<le> lastAccess (snd x)"
    by blast
  from d m have "mapDelete (cache st) k = pre @ post"
    by (simp only: mapDelete_split)
  with big f have "cache (evictIfNeeded st) = pre @ post"
    and "book (evictIfNeeded st) = resetChapter k (book st)"
    by (simp_all add: evictIfNeeded_def)
  with m pre post show ?thesis by blast
qed

lemma evictIfNeeded_revoked: "revoked (evictIfNeeded st) = revoked st"
  by (simp add: evictIfNeeded_def cleanup_after_reset split: option.splits)

lemma evictIfNeeded_small:
  "length (cache st) \<le> MAX_CACHE_SIZE \<Longrightarrow> evictIfNeeded st = st"
  by (simp add: evictIfNeeded_def)

lemma evictIfNeeded_keys:
  "distinct (map fst (cache st)) \<Longrightarrow> length (cache st) \<le> Suc MAX_CACHE_SIZE \<Longrightarrow>
   distinct (map fst (cache (evictIfNeeded st))) \<and> length (cache (evictIfNeeded st)) \<le> MAX_CACHE_SIZE"
proof (cases "length (cache st) \<le> MAX_CACHE_SIZE")
  case True
  assume "distinct (map fst (cache st))"
  with True show ?thesis by (simp add: evictIfNeeded_def)
next
  case False
  assume d: "distinct (map fst (cache st))" and le: "length (cache st) \<le> Suc MAX_CACHE_SIZE"
  from False have big: "MAX_CACHE_SIZE < length (cache st)" by simp
  from evictIfNeeded_removes [OF big d] obtain pre k e post
    where m: "cache st = pre @ (k, e) # post" and c: "cache (evictIfNeeded st) = pre @ post"
    by blast
  from d m le show ?thesis by (simp add: c)
qed


lemma evictIfNeeded_mirrors:
  assumes d: "distinct (map fst (cache st))" and inv: "mirrors st"
  shows "mirrors (evictIfNeeded st)"
proof (cases "length (cache st) \<le> MAX_CACHE_SIZE")
  case True
  with inv show ?thesis by (simp add: evictIfNeeded_small)
next
  case False
  then have big: "MAX_CACHE_SIZE < length (cache st)" by simp
  from evictIfNeeded_removes [OF big d] obtain pre k e post
    where m: "cache st = pre @ (k, e) # post"
      and c: "cache (evictIfNeeded st) = pre @ post"
      and b: "book (evictIfNeeded st) = resetChapter k (book st)"
    by blast
  from d m have notin: "k \<notin> fst ` set pre" "k \<notin> fst ` set post" by auto
  show ?thesis
    unfolding mirrors_def
  proof (intro allI impI)
    fix i assume "i < length (chapters (book (evictIfNeeded st)))"
    then have i: "i < length (chapters (book st))" by (simp add: b)
    from inv i have old: "(isLoaded (chapters (book st) ! i) \<longleftrightarrow> i \<in> set (map fst (cache st)))"
      "(i \<notin> set (map fst (cache st)) \<longrightarrow> ch_layers (chapters (book st) ! i) = [])"
      by (simp_all add: mirrors_def)
    show "(isLoaded (chapters (book (evictIfNeeded st)) ! i) \<longleftrightarrow>
            i \<in> set (map fst (cache (evictIfNeeded st)))) \<and>
          (i \<notin> set (map fst (cache (evictIfNeeded st))) \<longrightarrow>
            ch_layers (chapters (book (evictIfNeeded st)) ! i) = [])"
    proof (cases "i = k")
      case True
      with i notin show ?thesis by (simp add: b c resetChapter_nth)
    next
      case False
      with i old m show ?thesis by (auto simp: b c resetChapter_nth)
    qed
  qed
qed

lemma cacheLoadChapter_in_range:
  "cacheLoadChapter pf b cid = Inr ls \<Longrightarrow> cid < length (chapters b)"
  by (auto simp: cacheLoadChapter_def txtLoadChapter_def epubLoadChapter0_def
      epubLoadChapterWith_def split: if_splits)

text \<open>The three shapes of a completed \<open>getChapter\<close> call.\<close>

lemma getChapter_cases:
  obtains (hit) entry where "map_of (cache st) cid = Some entry"
      "getChapter pf now cid st =
         (Inr (ce_layers entry), st\<lparr>cache := mapSet (cache st) cid (entry\<lparr>lastAccess := now\<rparr>)\<rparr>)"
  | (raise) e where "map_of (cache st) cid = None" "getChapter pf now cid st = (Inl e, st)"
  | (miss) ls where "map_of (cache st) cid = None" "cid < length (chapters (book st))"
      "cacheLoadChapter pf (book st) cid = Inr ls"
      "getChapter pf now cid st =
         (Inr ls, evictIfNeeded
            (st\<lparr>cache := mapSet (cache st) cid \<lparr>chapterId = cid, ce_layers = ls, lastAccess = now\<rparr>,
                book := (book st)\<lparr>chapters := (chapters (book st))
                          [cid := (chapters (book st) ! cid)\<lparr>ch_layers := ls, isLoaded := True\<rparr>]\<rparr>\<rparr>))"
proof (cases "map_of (cache st) cid")
  case (Some entry)
  then show ?thesis by (intro hit [of entry]) (simp_all add: getChapter_def)
next
  case None
  show ?thesis
  proof (cases "cacheLoadChapter pf (book st) cid")
    case (Inl e)
    with None show ?thesis by (intro raise [of e]) (simp_all add: getChapter_def)
  next
    case (Inr ls)
    from cacheLoadChapter_in_range [OF Inr] have r: "cid < length (chapters (book st))" .
    with None Inr show ?thesis
      by (intro miss [of ls]) (simp_all add: getChapter_def Let_def)
  qed
qed

lemma map_of_keys: "map_of m k = Some v \<Longrightarrow> k \<in> set (map fst m)"
  by (metis map_of_eq_None_iff option.distinct(1) set_map)

lemma map_of_no_key: "map_of m k = None \<Longrightarrow> k \<notin> set (map fst m)"
  by (simp add: map_of_eq_None_iff)

lemma getChapter_cacheOk:
  assumes "cacheOk st"
  shows "cacheOk (snd (getChapter pf now cid st))"
proof (cases rule: getChapter_cases [of st cid pf now])
  case (hit entry)
  from hit(1) have "cid \<in> set (map fst (cache st))" by (rule map_of_keys)
  with assms hit(2) show ?thesis
    by (simp add: cacheOk_def mapSet_keys mapSet_length)
next
  case (raise e)
  with assms show ?thesis by simp
next
  case (miss ls)
  from miss(1) have "cid \<notin> set (map fst (cache st))" by (rule map_of_no_key)
  with assms have "distinct (map fst (mapSet (cache st) cid \<lparr>chapterId = cid, ce_layers = ls, lastAccess = now\<rparr>))"
    "length (mapSet (cache st) cid \<lparr>chapterId = cid, ce_layers = ls, lastAccess = now\<rparr>) \<le> Suc MAX_CACHE_SIZE"
    by (simp_all add: cacheOk_def mapSet_keys mapSet_length)
  then show ?thesis
    unfolding miss(4) cacheOk_def snd_conv
    by (intro evictIfNeeded_keys) simp_all
qed

lemma getChapter_mirrors:
  assumes ok: "cacheOk st" and inv: "mirrors st"
  shows "mirrors (snd (getChapter pf now cid st))"
proof (cases rule: getChapter_cases [of st cid pf now])
  case (hit entry)
  from hit(1) have "cid \<in> set (map fst (cache st))" by (rule map_of_keys)
  with inv hit(2) show ?thesis
    by (simp add: mirrors_def mapSet_keys)
next
  case (raise e)
  with inv show ?thesis by simp
next
  case (miss ls)
  from miss(1) have new: "cid \<notin> set (map fst (cache st))" by (rule map_of_no_key)
  let ?st2 = "st\<lparr>cache := mapSet (cache st) cid \<lparr>chapterId = cid, ce_layers = ls, lastAccess = now\<rparr>,
                book := (book st)\<lparr>chapters := (chapters (book st))
                          [cid := (chapters (book st) ! cid)\<lparr>ch_layers := ls, isLoaded := True\<rparr>]\<rparr>\<rparr>"
  from ok new have d: "distinct (map fst (cache ?st2))"
    by (simp add: cacheOk_def mapSet_keys)
  from inv new miss(2) have "mirrors ?st2"
    by (auto simp: mirrors_def mapSet_keys nth_list_update)
  with d have "mirrors (evictIfNeeded ?st2)"
    by (rule evictIfNeeded_mirrors)
  then show ?thesis by (simp add: miss(4))
qed

lemma getChapters_invariants:
  "cacheOk st \<Longrightarrow> mirrors st \<Longrightarrow>
   cacheOk (getChapters pf calls st) \<and> mirrors (getChapters pf calls st)"
proof (induction calls arbitrary: st)
  case Nil
  then show ?case by simp
next
  case (Cons call calls)
  obtain cid now where call: "call = (cid, now)" by (cases call)
  from Cons.prems have "cacheOk (snd (getChapter pf now cid st))"
    "mirrors (snd (getChapter pf now cid st))"
    by (simp_all add: getChapter_cacheOk getChapter_mirrors)
  from Cons.IH [OF this] call show ?case by simp
qed

lemma getChapters_cacheOk: "cacheOk st \<Longrightarrow> cacheOk (getChapters pf calls st)"
proof (induction calls arbitrary: st)
  case Nil
  then show ?case by simp
next
  case (Cons call calls)
  obtain cid now where call: "call = (cid, now)" by (cases call)
  from Cons.prems have "cacheOk (snd (getChapter pf now cid st))"
    by (rule getChapter_cacheOk)
  from Cons.IH [OF this] call show ?case by simp
qed

lemma newChapterCache_ok: "cacheOk (newChapterCache b)"
  by (simp add: cacheOk_def newChapterCache_def)

lemma fold_cleanup_book:
  "book (fold cleanupBlobUrls ks st) = book st \<and> cache (fold cleanupBlobUrls ks st) = cache st"
  by (induction ks arbitrary: st) simp_all

lemma clear_effect:
  "cache (clear st) = [] \<and> prefetchQueue (clear st) = [] \<and> book (clear st) = book st"
  by (simp add: clear_def fold_cleanup_book)

lemma getChapter_revoked: "revoked (snd (getChapter pf now cid st)) = revoked st"
  by (cases rule: getChapter_cases [of st cid pf now]) (simp_all add: evictIfNeeded_revoked)

lemma getChapters_revoked: "revoked (getChapters pf calls st) = revoked st"
proof (induction calls arbitrary: st)
  case Nil
  then show ?case by simp
next
  case (Cons call calls)
  obtain cid now where "call = (cid, now)" by (cases call)
  with Cons.IH [of "snd (getChapter pf now cid st)"] show ?case
    by (simp add: getChapter_revoked)
qed

lemma newChapterCache_mirrors:
  "\<forall>c \<in> set (chapters b). \<not> isLoaded c \<and> ch_layers c = [] \<Longrightarrow> mirrors (newChapterCache b)"
  by (simp add: mirrors_def newChapterCache_def)

text \<open>
  \<open>getChapter\<close> and eviction keep the book in step with the map: on a new cache for
  a book whose chapters are all unloaded and without layers, after any sequence of
  completed \<open>getChapter\<close> calls a chapter is marked \<open>isLoaded\<close> exactly when its
  id is a key of the map, and a chapter that is not cached holds no layers.
\<close>

lemma getChapters_mirror:
  "\<forall>c \<in> set (chapters b). \<not> isLoaded c \<and> ch_layers c = [] \<Longrightarrow>
   st = getChapters pf calls (newChapterCache b) \<Longrightarrow>
   \<forall>i < length (chapters (book st)).
      (isLoaded (chapters (book st) ! i) \<longleftrightarrow> i \<in> set (map fst (cache st))) \<and>
      (i \<notin> set (map fst (cache st)) \<longrightarrow> ch_layers (chapters (book st) ! i) = [])"
proof -
  assume fresh: "\<forall>c \<in> set (chapters b). \<not> isLoaded c \<and> ch_layers c = []"
    and st: "st = getChapters pf calls (newChapterCache b)"
  from fresh have "mirrors (newChapterCache b)" by (rule newChapterCache_mirrors)
  with newChapterCache_ok have "mirrors st"
    unfolding st by (simp add: getChapters_invariants)
  then show ?thesis
    by (simp add: mirrors_def)
qed

section \<open>Unfolding the examples\<close>

lemmas example_defs = exampleBook_def skeleton_def examplePlatform_def exampleContainer_def
  exampleSection_def exampleBody_def

lemmas adapter_defs = epubLoadChapter_def epubLoadChapter0_def epubLoadChapterWith_def
      loadSection_def parseHTML_def parseHTML0_def traverseDOM_def traverseDOM0_def
      truthy_def toLowerCase_def js_def isHeadingTag_def
      pushText_def trim_def isWhiteSpace_def processImage_def processImage0_def fetchImage_def
      resolveImagePath_def startsWith_def basePath_def substring0_def lastIndexOf_def
      createObjectURL_def showNat.simps addParagraphsWithChunking_def
      addParagraphsWithChunking0_def totalChars_def MAX_LAYER_LENGTH_def Let_def

lemmas cache_defs = getChapter_def cacheLoadChapter_def newChapterCache_def evictIfNeeded_def
      MAX_CACHE_SIZE_def mapDelete_def resetChapter_def cleanupBlobUrls_def clear_def

section \<open>loadChapter: helper lemmas\<close>







lemma loadSection_chain:
  "chainFrom 0 (loadSection (\<lambda>epubBook sec document. Inr (parseHTML pf epubBook sec document))
                  epubBook chapter cid)"
  by (simp add: loadSection_def parseHTML_chain missingLayer_def emptyDocumentLayer_def
      failedLayer_def split: sum.splits option.splits)

text \<open>
  The copy of the EPUB adapter with \<open>startIndex\<close> and the plain-text adapter return
  index-continuous layers, when the layers the book already holds for a loaded chapter are.
\<close>

lemma loadChapter_indexContinuity:
  "cid < length (chapters bk) \<Longrightarrow>
   isLoaded (chapters bk ! cid) \<longrightarrow> indexContinuity (ch_layers (chapters bk ! cid)) \<Longrightarrow>
   (txtLoadChapter pf bk cid = Inr ls \<or> epubLoadChapter pf bk cid = Inr ls) \<Longrightarrow>
   indexContinuity ls"
proof -
  assume r: "cid < length (chapters bk)"
    and c: "isLoaded (chapters bk ! cid) \<longrightarrow> indexContinuity (ch_layers (chapters bk ! cid))"
    and ld: "txtLoadChapter pf bk cid = Inr ls \<or> epubLoadChapter pf bk cid = Inr ls"
  show ?thesis
  proof (cases "isLoaded (chapters bk ! cid) \<and> 0 < length (ch_layers (chapters bk ! cid))")
    case True
    with r ld have "ls = ch_layers (chapters bk ! cid)"
      by (auto simp: txtLoadChapter_def epubLoadChapter_def epubLoadChapterWith_def)
    with True c show ?thesis by simp
  next
    case False
    from ld show ?thesis
    proof
      assume "txtLoadChapter pf bk cid = Inr ls"
      with r False obtain ps where "ls = chunkParagraphs ps"
        by (auto simp: txtLoadChapter_def Let_def split: prod.splits)
      with chunkParagraphs_chain [of ps] show ?thesis
        by (simp add: chainFrom_indexContinuity)
    next
      assume "epubLoadChapter pf bk cid = Inr ls"
      with r False
      have "ls = loadSection (\<lambda>epubBook sec document. Inr (parseHTML pf epubBook sec document))
                   (ePub pf (rawData bk)) (chapters bk ! cid) cid"
        by (auto simp: epubLoadChapter_def epubLoadChapterWith_def Let_def)
      with loadSection_chain [of pf "ePub pf (rawData bk)" "chapters bk ! cid" cid] show ?thesis
        by (simp add: chainFrom_indexContinuity)
    qed
  qed
qed

section \<open>Chunking: round trip (C2)\<close>

text \<open>
  C2. For every paragraph sequence \<open>P\<close> and every start index, the paragraphs of the
  layers returned by one chunking call, concatenated in order, are exactly \<open>P\<close>:
  for \<open>TxtAdapter.chunkParagraphs\<close>, and for the layers that
  \<open>EpubAdapter.addParagraphsWithChunking\<close> appends to \<open>layers\<close>, with or without
  an image.
\<close>

theorem chunking_roundtrip:
  "concat (map paragraphs (chunkParagraphs P)) = P \<and>
   concat (map paragraphs (drop (length L)
      (fst (addParagraphsWithChunking L P start img)))) = P"
  by (simp add: chunkParagraphs_roundtrip addParagraphsWithChunking_new addParagraphs_roundtrip)

section \<open>Chunking: size bound (C3)\<close>

text \<open>
  C3. Every layer returned by a chunking call that has two or more paragraphs has at
  most 15000 characters in total, and a returned layer exceeds 15000 characters only
  when it is a single paragraph that is itself longer than 15000.
\<close>

theorem chunking_size_bound:
  "(\<forall>l \<in> set (chunkParagraphs P) \<union>
        set (drop (length L) (fst (addParagraphsWithChunking L P start img))).
     (2 \<le> length (paragraphs l) \<longrightarrow> totalChars (paragraphs l) \<le> 15000) \<and>
     (15000 < totalChars (paragraphs l) \<longrightarrow>
        (\<exists>p. paragraphs l = [p] \<and> 15000 < length p)))"
proof
  fix l
  assume "l \<in> set (chunkParagraphs P) \<union>
        set (drop (length L) (fst (addParagraphsWithChunking L P start img)))"
  then have ok: "sizeOk (paragraphs l)"
    by (auto simp: addParagraphsWithChunking_new dest: chunkParagraphs_sizeOk addParagraphs_sizeOk)
  show "(2 \<le> length (paragraphs l) \<longrightarrow> totalChars (paragraphs l) \<le> 15000) \<and>
     (15000 < totalChars (paragraphs l) \<longrightarrow> (\<exists>p. paragraphs l = [p] \<and> 15000 < length p))"
    using ok by (auto simp: sizeOk_def MAX_LAYER_LENGTH_def split: list.splits)
qed

theorem chunking_size_bound_witness:
  "chunkParagraphs [replicate 7000 97, replicate 7000 98, replicate 7000 99] =
     [\<lparr>paragraphs = [replicate 7000 97, replicate 7000 98], startIndex = 0, image = None\<rparr>,
      \<lparr>paragraphs = [replicate 7000 99], startIndex = 2, image = None\<rparr>] \<and>
   totalChars [replicate 7000 97, replicate 7000 98] \<le> 15000"
proof -
  have run: "chunkParagraphs [replicate 7000 97, replicate 7000 98, replicate 7000 99] =
     [\<lparr>paragraphs = [replicate 7000 97, replicate 7000 98], startIndex = 0, image = None\<rparr>,
      \<lparr>paragraphs = [replicate 7000 99], startIndex = 2, image = None\<rparr>]"
    by (simp add: chunkParagraphs_def MAX_LAYER_LENGTH_def)
  have "\<lparr>paragraphs = [replicate 7000 97, replicate 7000 98], startIndex = 0, image = None\<rparr>
      \<in> set (chunkParagraphs [replicate 7000 97, replicate 7000 98, replicate 7000 99]) \<union>
        set (drop (length []) (fst (addParagraphsWithChunking [] [replicate 7000 97, replicate 7000 98, replicate 7000 99] 0 None)))"
    by (simp only: run) simp
  with chunking_size_bound [of "[replicate 7000 97, replicate 7000 98, replicate 7000 99]" "[]" 0 None]
  have "totalChars [replicate 7000 97, replicate 7000 98] \<le> 15000"
    by fastforce
  with run show ?thesis by simp
qed

section \<open>Cache capacity (C4)\<close>

text \<open>
  C4. After any finite sequence of completed \<open>getChapter\<close> calls on a new cache,
  whatever the chapter ids, the clock values and the results of the adapter, the size
  that \<open>getStats\<close> reports is at most 5.
\<close>

theorem cache_capacity:
  "fst (getStats (getChapters pf calls (newChapterCache b))) \<le> 5"
  using getChapters_cacheOk [OF newChapterCache_ok, of pf calls b]
  by (simp add: getStats_def cacheOk_def MAX_CACHE_SIZE_def)

section \<open>Eviction removes the least recently used entry (C5)\<close>

text \<open>
  C5. When the map holds more than 5 entries, \<open>evictIfNeeded\<close> removes exactly one
  entry, whose \<open>lastAccess\<close> is minimal among all entries: every entry inserted
  before it has a strictly greater \<open>lastAccess\<close>, every entry inserted after it a
  greater or equal one, so among tied entries the earliest inserted goes. The keys of a
  \<open>Map\<close> are distinct.
\<close>

theorem evict_least_recent:
  "MAX_CACHE_SIZE < length (cache st) \<Longrightarrow> distinct (map fst (cache st)) \<Longrightarrow>
   \<exists>pre k e post. cache st = pre @ (k, e) # post \<and>
      cache (evictIfNeeded st) = pre @ post \<and>
      (\<forall>x \<in> set pre. lastAccess e < lastAccess (snd x)) \<and>
      (\<forall>x \<in> set post. lastAccess e \<le> lastAccess (snd x))"
proof -
  assume "MAX_CACHE_SIZE < length (cache st)" and "distinct (map fst (cache st))"
  from evictIfNeeded_removes [OF this] show ?thesis by blast
qed

theorem evict_least_recent_witness:
  "MAX_CACHE_SIZE < length (cache exampleFull) \<and> distinct (map fst (cache exampleFull)) \<and>
   cache (evictIfNeeded exampleFull) =
     [entryAt 0 5, entryAt 2 7, entryAt 3 3, entryAt 4 9, entryAt 5 4] \<and>
   (\<exists>pre k e post. cache exampleFull = pre @ (k, e) # post \<and>
      cache (evictIfNeeded exampleFull) = pre @ post \<and>
      (\<forall>x \<in> set pre. lastAccess e < lastAccess (snd x)) \<and>
      (\<forall>x \<in> set post. lastAccess e \<le> lastAccess (snd x)))"
proof -
  have big: "MAX_CACHE_SIZE < length (cache exampleFull)"
    by (simp add: exampleFull_def MAX_CACHE_SIZE_def)
  have d: "distinct (map fst (cache exampleFull))"
    by (simp add: exampleFull_def entryAt_def)
  have run: "cache (evictIfNeeded exampleFull) =
     [entryAt 0 5, entryAt 2 7, entryAt 3 3, entryAt 4 9, entryAt 5 4]"
    by (simp add: evictIfNeeded_def exampleFull_def entryAt_def MAX_CACHE_SIZE_def mapDelete_def)
  from big d run evict_least_recent [OF big d] show ?thesis by blast
qed

section \<open>Eviction and blob URLs (C6)\<close>

text \<open>
  C6, at a concrete run. The first chapter of the example book loads to a layer with the
  image \<open>blob:u7\<close>. After six \<open>getChapter\<close> calls for the chapters 0 to 5 the
  entry of chapter 0 has been evicted, and no URL has been passed to
  \<open>URL.revokeObjectURL\<close>: \<open>evictIfNeeded\<close> empties \<open>chapter.layers\<close> before it
  calls \<open>cleanupBlobUrls\<close>, which reads the images from \<open>chapter.layers\<close>.
\<close>

theorem eviction_leaves_blob_urls:
  "fst (getChapter examplePlatform 1 0 (newChapterCache exampleBook)) =
     Inr [\<lparr>paragraphs = [js ''a''], startIndex = 0, image = Some (js ''blob:u7'')\<rparr>,
          \<lparr>paragraphs = [js ''b''], startIndex = 0, image = None\<rparr>] \<and>
   map fst (cache (getChapters examplePlatform [(0, 1), (1, 2), (2, 3), (3, 4), (4, 5), (5, 6)]
                     (newChapterCache exampleBook))) = [1, 2, 3, 4, 5] \<and>
   revoked (getChapters examplePlatform [(0, 1), (1, 2), (2, 3), (3, 4), (4, 5), (5, 6)]
              (newChapterCache exampleBook)) = []"
proof (intro conjI)
  show "fst (getChapter examplePlatform 1 0 (newChapterCache exampleBook)) =
     Inr [\<lparr>paragraphs = [js ''a''], startIndex = 0, image = Some (js ''blob:u7'')\<rparr>,
          \<lparr>paragraphs = [js ''b''], startIndex = 0, image = None\<rparr>]"
    by (simp add: example_defs adapter_defs cache_defs)
  show "map fst (cache (getChapters examplePlatform [(0, 1), (1, 2), (2, 3), (3, 4), (4, 5), (5, 6)]
                     (newChapterCache exampleBook))) = [1, 2, 3, 4, 5]"
    by (simp add: example_defs adapter_defs cache_defs)
  show "revoked (getChapters examplePlatform [(0, 1), (1, 2), (2, 3), (3, 4), (4, 5), (5, 6)]
              (newChapterCache exampleBook)) = []"
    by (simp only: getChapters_revoked) (simp add: newChapterCache_def)
qed

section \<open>The book mirrors the cache (C7)\<close>

text \<open>
  C7, at a concrete run. After \<open>getChapter(0)\<close> on a new cache for the example book
  and \<open>clear()\<close>, the map is empty and chapter 0 is still marked \<open>isLoaded\<close>; it
  still holds its layers, with the image \<open>blob:u7\<close> that \<open>clear\<close> has just
  revoked; and the next \<open>getChapter(0)\<close> returns these layers, because the adapter
  answers a loaded chapter from the book. \<open>evictIfNeeded\<close> resets the chapter in
  the book when it removes an entry; \<open>clear\<close> does not.
\<close>

theorem clear_keeps_isLoaded:
  "\<not> (isLoaded (chapters (book (clear (getChapters examplePlatform [(0, 1)]
                                          (newChapterCache exampleBook)))) ! 0)
       \<longleftrightarrow> 0 \<in> set (map fst (cache (clear (getChapters examplePlatform [(0, 1)]
                                          (newChapterCache exampleBook)))))) \<and>
   ch_layers (chapters (book (clear (getChapters examplePlatform [(0, 1)]
                                       (newChapterCache exampleBook)))) ! 0) =
     [\<lparr>paragraphs = [js ''a''], startIndex = 0, image = Some (js ''blob:u7'')\<rparr>,
      \<lparr>paragraphs = [js ''b''], startIndex = 0, image = None\<rparr>] \<and>
   revoked (clear (getChapters examplePlatform [(0, 1)] (newChapterCache exampleBook))) =
     [js ''blob:u7''] \<and>
   fst (getChapter examplePlatform 2 0
          (clear (getChapters examplePlatform [(0, 1)] (newChapterCache exampleBook)))) =
     Inr [\<lparr>paragraphs = [js ''a''], startIndex = 0, image = Some (js ''blob:u7'')\<rparr>,
          \<lparr>paragraphs = [js ''b''], startIndex = 0, image = None\<rparr>]"
proof -
  have run: "getChapters examplePlatform [(0, 1)] (newChapterCache exampleBook) =
     \<lparr>cache = [(0, \<lparr>chapterId = 0,
                      ce_layers =
                        [\<lparr>paragraphs = [js ''a''], startIndex = 0, image = Some (js ''blob:u7'')\<rparr>,
                         \<lparr>paragraphs = [js ''b''], startIndex = 0, image = None\<rparr>],
                      lastAccess = 1\<rparr>)],
      book = exampleBook\<lparr>chapters :=
        [(skeleton 0)\<lparr>ch_layers :=
            [\<lparr>paragraphs = [js ''a''], startIndex = 0, image = Some (js ''blob:u7'')\<rparr>,
             \<lparr>paragraphs = [js ''b''], startIndex = 0, image = None\<rparr>],
            isLoaded := True\<rparr>,
         skeleton 1, skeleton 2, skeleton 3, skeleton 4, skeleton 5]\<rparr>,
      prefetchQueue = [], revoked = []\<rparr>"
    by (simp add: example_defs adapter_defs cache_defs)
  show ?thesis
    unfolding run
    by (simp add: example_defs adapter_defs cache_defs)
qed

section \<open>Errors of loadChapter (C8)\<close>



section \<open>A failing image is skipped (C9)\<close>

text \<open>
  C9. In the tree walk, an \<open>img\<close> element whose source is an external http or https
  URL, or whose resolution or fetch fails in any other way, changes nothing: the state
  after the element is the state before it, so no layer is pushed, the running index
  is not advanced and the pending paragraphs stay pending for the next flush. The walk
  over children with such an element is the walk over the children without it, and
  the walk returns a state, not an error.
\<close>

theorem image_failure_contained:
  "toLowerCase tag = js ''img'' \<Longrightarrow>
   startsWith src (js ''http://'') \<or> startsWith src (js ''https://'')
     \<or> isl (fetchImage pf epubBook sec src) \<Longrightarrow>
   traverseChild pf epubBook sec (Element tag (Some src) content kids) w = w \<and>
   traverseChildren pf epubBook sec (pre @ Element tag (Some src) content kids # post) w =
     traverseChildren pf epubBook sec (pre @ post) w"
proof -
  assume tag: "toLowerCase tag = js ''img''"
    and fail: "startsWith src (js ''http://'') \<or> startsWith src (js ''https://'')
     \<or> isl (fetchImage pf epubBook sec src)"
  have skip: "traverseChild pf epubBook sec (Element tag (Some src) content kids) v = v" for v
    using tag fail by (rule traverseChild_img_failure)
  have "traverseChildren pf epubBook sec (pre @ Element tag (Some src) content kids # post) w =
     traverseChildren pf epubBook sec (pre @ post) w"
    by (simp only: traverseChildren_append traverseChildren.simps skip)
  with skip show ?thesis by simp
qed

theorem image_failure_contained_witness:
  "toLowerCase (js ''IMG'') = js ''img'' \<and>
   startsWith (js ''https://e/a.png'') (js ''https://'') \<and>
   traverseChildren examplePlatform exampleContainer (exampleSection 0)
     ([Element (js ''p'') None (js ''a'') []]
        @ Element (js ''IMG'') (Some (js ''https://e/a.png'')) [] []
        # [Element (js ''p'') None (js ''b'') []])
     \<lparr>wLayers = [], currentParagraphs = [], globalIndex = 0\<rparr> =
   \<lparr>wLayers = [], currentParagraphs = [js ''a'', js ''b''], globalIndex = 0\<rparr>"
proof -
  have tag: "toLowerCase (js ''IMG'') = js ''img''"
    by (simp add: toLowerCase_def js_def)
  have ext: "startsWith (js ''https://e/a.png'') (js ''https://'')"
    by (simp add: startsWith_def js_def)
  have rest: "traverseChildren examplePlatform exampleContainer (exampleSection 0)
     ([Element (js ''p'') None (js ''a'') []] @ [Element (js ''p'') None (js ''b'') []])
     \<lparr>wLayers = [], currentParagraphs = [], globalIndex = 0\<rparr> =
   \<lparr>wLayers = [], currentParagraphs = [js ''a'', js ''b''], globalIndex = 0\<rparr>"
    by (simp add: toLowerCase_def js_def pushText_def trim_def isWhiteSpace_def)
  from image_failure_contained [OF tag, of "js ''https://e/a.png''" examplePlatform
      exampleContainer "exampleSection 0" "[]" "[]"
      "\<lparr>wLayers = [], currentParagraphs = [], globalIndex = 0\<rparr>"
      "[Element (js ''p'') None (js ''a'') []]" "[Element (js ''p'') None (js ''b'') []]"] ext
  have "traverseChildren examplePlatform exampleContainer (exampleSection 0)
     ([Element (js ''p'') None (js ''a'') []]
        @ Element (js ''IMG'') (Some (js ''https://e/a.png'')) [] []
        # [Element (js ''p'') None (js ''b'') []])
     \<lparr>wLayers = [], currentParagraphs = [], globalIndex = 0\<rparr> =
    traverseChildren examplePlatform exampleContainer (exampleSection 0)
     ([Element (js ''p'') None (js ''a'') []] @ [Element (js ''p'') None (js ''b'') []])
     \<lparr>wLayers = [], currentParagraphs = [], globalIndex = 0\<rparr>"
    by blast
  with tag ext rest show ?thesis by (simp only:)
qed

section \<open>\<open>TxtAdapter.chunkParagraphs\<close> emits no empty layer (C10)\<close>

text \<open>
  C10. Every layer returned by \<open>TxtAdapter.chunkParagraphs\<close> has at least one
  paragraph and no image; for a non-empty input the first layer starts at index 0; the
  empty input gives the empty layer list.
\<close>

theorem chunkParagraphs_no_empty_layer:
  "(\<forall>l \<in> set (chunkParagraphs P). 1 \<le> length (paragraphs l) \<and> image l = None) \<and>
   (P \<noteq> [] \<longrightarrow> chunkParagraphs P \<noteq> [] \<and> startIndex (hd (chunkParagraphs P)) = 0) \<and>
   chunkParagraphs [] = []"
proof (intro conjI ballI impI)
  fix l assume "l \<in> set (chunkParagraphs P)"
  from chunkParagraphs_shape [OF this]
  show "1 \<le> length (paragraphs l)" and "image l = None" by (simp_all add: Suc_le_eq)
next
  assume "P \<noteq> []"
  with chunkParagraphs_roundtrip [of P] show ne: "chunkParagraphs P \<noteq> []"
    by auto
  then obtain l ls where "chunkParagraphs P = l # ls"
    by (cases "chunkParagraphs P") auto
  with chunkParagraphs_chain [of P] show "startIndex (hd (chunkParagraphs P)) = 0"
    by simp
next
  show "chunkParagraphs [] = []" by (simp add: chunkParagraphs_def)
qed

theorem chunkParagraphs_no_empty_layer_witness:
  "chunkParagraphs [js ''ab'', js ''c''] =
     [\<lparr>paragraphs = [js ''ab'', js ''c''], startIndex = 0, image = None\<rparr>] \<and>
   1 \<le> length (paragraphs \<lparr>paragraphs = [js ''ab'', js ''c''], startIndex = 0, image = None\<rparr>) \<and>
   startIndex (hd (chunkParagraphs [js ''ab'', js ''c''])) = 0"
proof -
  have run: "chunkParagraphs [js ''ab'', js ''c''] =
     [\<lparr>paragraphs = [js ''ab'', js ''c''], startIndex = 0, image = None\<rparr>]"
    by (simp add: chunkParagraphs_def MAX_LAYER_LENGTH_def js_def)
  have ne: "[js ''ab'', js ''c''] \<noteq> []" by simp
  from chunkParagraphs_no_empty_layer [of "[js ''ab'', js ''c'']"] ne
  have "startIndex (hd (chunkParagraphs [js ''ab'', js ''c''])) = 0"
    and "\<forall>l \<in> set (chunkParagraphs [js ''ab'', js ''c'']). 1 \<le> length (paragraphs l)"
    by blast+
  with run show ?thesis by simp
qed

section \<open>Index continuity of a chapter load (C1)\<close>

text \<open>
  C1, at a concrete chapter load with the copy of the adapter in
  src/adapters/EpubAdapter.ts. The section body is a paragraph, an image that resolves,
  and a paragraph. The first layer holds one paragraph and the image and starts at 0;
  the second layer starts at 0 again, where index continuity asks for 0 + 1 + 1 = 2:
  this copy does not count the image, and its \<open>parseHTML\<close> drops the counter that
  \<open>traverseDOM\<close> returns.
\<close>

theorem startGlobalIndex_copy_restarts_at_zero:
  "epubLoadChapter0 examplePlatform exampleBook 0 =
     Inr [\<lparr>paragraphs = [js ''a''], startIndex = 0, image = Some (js ''blob:u7'')\<rparr>,
          \<lparr>paragraphs = [js ''b''], startIndex = 0, image = None\<rparr>] \<and>
   \<not> indexContinuity
        [\<lparr>paragraphs = [js ''a''], startIndex = 0, image = Some (js ''blob:u7'')\<rparr>,
         \<lparr>paragraphs = [js ''b''], startIndex = 0, image = None\<rparr>]"
  by (simp add: example_defs epubLoadChapter0_def epubLoadChapterWith_def loadSection_def
      parseHTML0_def traverseDOM0_def truthy_def toLowerCase_def js_def isHeadingTag_def
      pushText_def trim_def isWhiteSpace_def processImage0_def fetchImage_def
      resolveImagePath_def startsWith_def basePath_def substring0_def lastIndexOf_def
      createObjectURL_def showNat.simps addParagraphsWithChunking0_def totalChars_def
      MAX_LAYER_LENGTH_def Let_def nextIndex_def)

end
